theory Spec2Isabelle
  imports Main "HOL-Library.Sublist"
begin

section \<open>Strings\<close>

text \<open>
  JavaScript strings are modelled as \<^typ>\<open>string\<close> (lists of characters). The
  functions below are the string primitives the automation module calls:
  \<^verbatim>\<open>String.prototype.toLowerCase\<close>, \<^verbatim>\<open>trim\<close>, \<^verbatim>\<open>includes\<close> and
  \<^verbatim>\<open>Array.prototype.join\<close>. A character is one of the 256 code units of Latin-1:
  the letters that \<^verbatim>\<open>toLowerCase\<close> folds are A to Z and the accented capitals
  \<open>0xC0\<close> to \<open>0xDE\<close> (without the multiplication sign \<open>0xD7\<close>), and the white space that
  \<^verbatim>\<open>trim\<close> strips is the space, the no-break space \<open>0xA0\<close> and the controls \<open>0x09\<close>
  to \<open>0x0D\<close>. Strings with code units above 255 are outside the model.
\<close>

definition toLowerChar :: "char \<Rightarrow> char" where
  "toLowerChar c =
     (case map_of
             (zip (''ABCDEFGHIJKLMNOPQRSTUVWXYZ''
                   @ [CHR 0xC0, CHR 0xC1, CHR 0xC2, CHR 0xC3, CHR 0xC4, CHR 0xC5, CHR 0xC6,
                      CHR 0xC7, CHR 0xC8, CHR 0xC9, CHR 0xCA, CHR 0xCB, CHR 0xCC, CHR 0xCD,
                      CHR 0xCE, CHR 0xCF, CHR 0xD0, CHR 0xD1, CHR 0xD2, CHR 0xD3, CHR 0xD4,
                      CHR 0xD5, CHR 0xD6, CHR 0xD8, CHR 0xD9, CHR 0xDA, CHR 0xDB, CHR 0xDC,
                      CHR 0xDD, CHR 0xDE])
                  (''abcdefghijklmnopqrstuvwxyz''
                   @ [CHR 0xE0, CHR 0xE1, CHR 0xE2, CHR 0xE3, CHR 0xE4, CHR 0xE5, CHR 0xE6,
                      CHR 0xE7, CHR 0xE8, CHR 0xE9, CHR 0xEA, CHR 0xEB, CHR 0xEC, CHR 0xED,
                      CHR 0xEE, CHR 0xEF, CHR 0xF0, CHR 0xF1, CHR 0xF2, CHR 0xF3, CHR 0xF4,
                      CHR 0xF5, CHR 0xF6, CHR 0xF8, CHR 0xF9, CHR 0xFA, CHR 0xFB, CHR 0xFC,
                      CHR 0xFD, CHR 0xFE])) c of
        Some l \<Rightarrow> l
      | None \<Rightarrow> c)"

definition toLowerCase :: "string \<Rightarrow> string" where
  "toLowerCase s = map toLowerChar s"

definition isSpace :: "char \<Rightarrow> bool" where
  "isSpace c = (c \<in> set [CHR '' '', CHR 0x09, CHR 0x0A, CHR 0x0B, CHR 0x0C, CHR 0x0D, CHR 0xA0])"

definition trim :: "string \<Rightarrow> string" where
  "trim s = rev (dropWhile isSpace (rev (dropWhile isSpace s)))"

text \<open>\<^verbatim>\<open>s.includes(t)\<close>: \<open>t\<close> occurs in \<open>s\<close> as a contiguous block.\<close>

fun str_includes :: "string \<Rightarrow> string \<Rightarrow> bool" where
  "str_includes [] t = (t = [])"
| "str_includes (c # cs) t = (take (length t) (c # cs) = t \<or> str_includes cs t)"

text \<open>\<^verbatim>\<open>parts.join(sep)\<close>.\<close>

fun join :: "string \<Rightarrow> string list \<Rightarrow> string" where
  "join sep [] = []"
| "join sep [p] = p"
| "join sep (p # q # ps) = p @ sep @ join sep (q # ps)"

definition isHexDigit :: "char \<Rightarrow> bool" where
  "isHexDigit c = (c \<in> set ''0123456789abcdefABCDEF'')"

text \<open>
  All matches of the global pattern \<^verbatim>\<open>/0x[a-fA-F0-9]{40}/g\<close>, left to right: a match
  starts at the first position that reads \<^verbatim>\<open>0x\<close> followed by forty hexadecimal digits,
  and the scan resumes behind the match.
\<close>

fun findAddresses :: "string \<Rightarrow> string list" where
  "findAddresses [] = []"
| "findAddresses (c # cs) =
     (if c = CHR ''0'' \<and> take 1 cs = ''x''
         \<and> length (take 40 (drop 1 cs)) = 40 \<and> list_all isHexDigit (take 40 (drop 1 cs))
      then (c # take 41 cs) # findAddresses (drop 41 cs)
      else findAddresses cs)"

text \<open>
  Insertion-ordered collections. A JavaScript \<^verbatim>\<open>Set\<close> iterates in first-insertion
  order, so \<^verbatim>\<open>[...new Set(xs)]\<close> keeps the first occurrence of every element. A
  \<^verbatim>\<open>Map\<close> is an association list in insertion order: \<^verbatim>\<open>set\<close> on a present key
  replaces the value where it stands, on a new key it appends.
\<close>

fun setAdd :: "'a list \<Rightarrow> 'a \<Rightarrow> 'a list" where
  "setAdd seen x = (if x \<in> set seen then seen else seen @ [x])"

definition newSet :: "'a list \<Rightarrow> 'a list" where
  "newSet xs = foldl setAdd [] xs"

fun mapSet :: "('k \<times> 'v) list \<Rightarrow> 'k \<Rightarrow> 'v \<Rightarrow> ('k \<times> 'v) list" where
  "mapSet [] k v = [(k, v)]"
| "mapSet ((k', v') # m) k v = (if k' = k then (k, v) # m else (k', v') # mapSet m k v)"

definition mapGet :: "('k \<times> 'v) list \<Rightarrow> 'k \<Rightarrow> 'v option" where
  "mapGet m k = map_of m k"

definition mapHas :: "('k \<times> 'v) list \<Rightarrow> 'k \<Rightarrow> bool" where
  "mapHas m k = (k \<in> fst ` set m)"

definition mapValues :: "('k \<times> 'v) list \<Rightarrow> 'v list" where
  "mapValues m = map snd m"


section \<open>Data model (types.ts)\<close>

record ContractEntry =
  address :: string
  blockchain :: string
  contract_name :: string
  protocol :: string

text \<open>
  \<^verbatim>\<open>CHAIN_ID_MAP\<close> is a plain object literal. Indexing it with a string that is not
  one of its own keys still finds the members every object inherits, and all of those are
  truthy; \<open>chainIdTruthy\<close> is the test \<^verbatim>\<open>!!CHAIN_ID_MAP[key]\<close>.
\<close>

definition CHAIN_ID_MAP :: "(string \<times> string) list" where
  "CHAIN_ID_MAP =
     [(''ethereum'', ''1''), (''bnb'', ''56''), (''bsc'', ''56''), (''polygon'', ''137''),
      (''arbitrum'', ''42161''), (''optimism'', ''10''), (''base'', ''8453''),
      (''avalanche'', ''43114''), (''fantom'', ''250''), (''abstract'', ''2741'')]"

definition objectPrototypeKeys :: "string list" where
  "objectPrototypeKeys =
     [''constructor'', ''__defineGetter__'', ''__defineSetter__'', ''hasOwnProperty'',
      ''__lookupGetter__'', ''__lookupSetter__'', ''isPrototypeOf'', ''propertyIsEnumerable'',
      ''toString'', ''valueOf'', ''__proto__'', ''toLocaleString'']"

definition chainIdTruthy :: "string \<Rightarrow> bool" where
  "chainIdTruthy key = (key \<in> fst ` set CHAIN_ID_MAP \<or> key \<in> set objectPrototypeKeys)"


section \<open>Contract list loader (contractListLoader.ts)\<close>

text \<open>
  A record as it comes out of \<^verbatim>\<open>JSON.parse\<close>: each field may be absent.
\<close>

record RawEntry =
  raw_address :: "string option"
  raw_blockchain :: "string option"
  raw_contract_name :: "string option"
  raw_protocol :: "string option"

text \<open>\<^verbatim>\<open>x?.f() || d\<close>: the default replaces an absent field and an empty result.\<close>

definition orDefault :: "string option \<Rightarrow> (string \<Rightarrow> string) \<Rightarrow> string \<Rightarrow> string" where
  "orDefault field f d =
     (case field of None \<Rightarrow> d | Some s \<Rightarrow> (if f s = [] then d else f s))"

definition normalizeContractEntry :: "RawEntry \<Rightarrow> ContractEntry" where
  "normalizeContractEntry entry =
     \<lparr> ContractEntry.address = orDefault (raw_address entry) (\<lambda>s. trim (toLowerCase s)) '''',
       ContractEntry.blockchain = orDefault (raw_blockchain entry) (\<lambda>s. trim (toLowerCase s)) '''',
       contract_name = orDefault (raw_contract_name entry) trim ''Unknown'',
       ContractEntry.protocol = orDefault (raw_protocol entry) trim ''Unknown'' \<rparr>"

text \<open>The test \<^verbatim>\<open>/^0x[a-f0-9]{40}$/i\<close>.\<close>

definition isAddress :: "string \<Rightarrow> bool" where
  "isAddress s =
     (length s = 42 \<and> take 1 s = ''0'' \<and> toLowerCase (take 1 (drop 1 s)) = ''x''
      \<and> list_all isHexDigit (drop 2 s))"

definition isValidContractEntry :: "ContractEntry \<Rightarrow> bool" where
  "isValidContractEntry entry =
     (if ContractEntry.address entry = [] \<or> \<not> isAddress (ContractEntry.address entry) then False
      else if ContractEntry.blockchain entry = []
              \<or> \<not> chainIdTruthy (ContractEntry.blockchain entry) then False
      else True)"

text \<open>
  The file system and the JSON parser are the environment: reading and parsing the file
  at a path either fails with a message or yields the parsed records.
\<close>

type_synonym files = "string \<Rightarrow> string + RawEntry list"

definition loadContractsFromFile :: "files \<Rightarrow> string \<Rightarrow> string + ContractEntry list" where
  "loadContractsFromFile fs filePath =
     (case fs filePath of
        Inr contracts \<Rightarrow> Inr (filter isValidContractEntry (map normalizeContractEntry contracts))
      | Inl msg \<Rightarrow> Inl (''Failed to load contracts from '' @ filePath @ '': '' @ msg))"

text \<open>
  \<^verbatim>\<open>loadContractsFromFiles\<close> has no handler of its own: an exception of
  \<^verbatim>\<open>loadContractsFromFile\<close> leaves the loop and the function.
\<close>

fun loadContractsFromFiles_loop ::
  "files \<Rightarrow> string list \<Rightarrow> ContractEntry list \<Rightarrow> string + ContractEntry list" where
  "loadContractsFromFiles_loop fs [] allContracts = Inr allContracts"
| "loadContractsFromFiles_loop fs (filePath # rest) allContracts =
     (case loadContractsFromFile fs filePath of
        Inl err \<Rightarrow> Inl err
      | Inr contracts \<Rightarrow> loadContractsFromFiles_loop fs rest (allContracts @ contracts))"

definition loadContractsFromFiles :: "files \<Rightarrow> string list \<Rightarrow> string + ContractEntry list" where
  "loadContractsFromFiles fs filePaths = loadContractsFromFiles_loop fs filePaths []"

text \<open>
  The loading loop of \<^verbatim>\<open>runAutomation\<close> (cli.ts) wraps each call of
  \<^verbatim>\<open>loadContractsFromFile\<close> in its own \<^verbatim>\<open>try\<close>/\<^verbatim>\<open>catch\<close>: a failing file is
  reported and skipped.
\<close>

fun runAutomation_load :: "files \<Rightarrow> string list \<Rightarrow> ContractEntry list \<Rightarrow> ContractEntry list" where
  "runAutomation_load fs [] contracts = contracts"
| "runAutomation_load fs (file # rest) contracts =
     (case loadContractsFromFile fs file of
        Inr loaded \<Rightarrow> runAutomation_load fs rest (contracts @ loaded)
      | Inl err \<Rightarrow> runAutomation_load fs rest contracts)"

text \<open>
  \<^verbatim>\<open>removeDuplicates\<close>: the key of an entry is the string
  \<^verbatim>\<open>`${contract.blockchain}:${contract.address}`\<close>.
\<close>

definition entryKey :: "ContractEntry \<Rightarrow> string" where
  "entryKey contract = ContractEntry.blockchain contract @ '':'' @ ContractEntry.address contract"

fun removeDuplicates_loop ::
  "ContractEntry list \<Rightarrow> string list \<Rightarrow> ContractEntry list \<Rightarrow> ContractEntry list" where
  "removeDuplicates_loop [] seen unique = unique"
| "removeDuplicates_loop (contract # rest) seen unique =
     (if entryKey contract \<notin> set seen
      then removeDuplicates_loop rest (seen @ [entryKey contract]) (unique @ [contract])
      else removeDuplicates_loop rest seen unique)"

definition removeDuplicates :: "ContractEntry list \<Rightarrow> ContractEntry list" where
  "removeDuplicates contracts = removeDuplicates_loop contracts [] []"


section \<open>ABI analysis (abiExtractor.ts)\<close>

datatype ABIType =
  ABI_function | ABI_event | ABI_constructor | ABI_fallback | ABI_receive | ABI_error

datatype StateMutability = Pure | View | Nonpayable | Payable

datatype ABIParameter =
  ABIParameter (param_name: string) (param_type: string) (indexed: "bool option")
    (components: "ABIParameter list option")

record ABIItem =
  type :: ABIType
  name :: "string option"
  inputs :: "ABIParameter list option"
  outputs :: "ABIParameter list option"
  stateMutability :: "StateMutability option"

text \<open>
  \<^verbatim>\<open>isERC20\<close>: the names of the items of type \<^verbatim>\<open>function\<close> are collected in a
  \<^verbatim>\<open>Set\<close> (an item without a name contributes \<^verbatim>\<open>undefined\<close>, here \<open>None\<close>), and
  every required name must be in it.
\<close>

definition isERC20 :: "ABIItem list \<Rightarrow> bool" where
  "isERC20 abi =
     (let requiredFunctions = [''name'', ''symbol'', ''decimals'', ''totalSupply'', ''balanceOf'',
                               ''transfer'', ''approve'', ''allowance'', ''transferFrom''];
          functionNames = newSet (map name (filter (\<lambda>item. type item = ABI_function) abi))
      in list_all (\<lambda>fn. Some fn \<in> set functionNames) requiredFunctions)"

definition detectProxyPattern :: "ABIItem list \<Rightarrow> bool" where
  "detectProxyPattern abi =
     (let proxyIndicators = [''implementation'', ''upgradeTo'', ''upgradeToAndCall'', ''_implementation''];
          functionNames = newSet (map (\<lambda>item. map_option toLowerCase (name item))
                                    (filter (\<lambda>item. type item = ABI_function) abi))
      in list_ex (\<lambda>indicator. Some indicator \<in> set functionNames) proxyIndicators)"

record SourceFile =
  filename :: string
  content :: string

text \<open>
  A fetched contract. The optional compiler fields of the interface are never read by the
  code modelled here and are left out.
\<close>

record FetchedContract =
  address :: string
  blockchain :: string
  chainId :: string
  contractName :: string
  protocol :: string
  sourceCode :: string
  abi :: "ABIItem list option"
  fetchedAt :: string
  sources :: "SourceFile list"

text \<open>\<^verbatim>\<open>contract.abi || []\<close> and \<^verbatim>\<open>contract.sources.map(s => s.content).join('\n')\<close>.\<close>

definition abiOrEmpty :: "FetchedContract \<Rightarrow> ABIItem list" where
  "abiOrEmpty contract = (case abi contract of None \<Rightarrow> [] | Some items \<Rightarrow> items)"

definition joinedSource :: "FetchedContract \<Rightarrow> string" where
  "joinedSource contract = join [CHR 0x0A] (map content (sources contract))"

text \<open>
  The remaining functions of abiExtractor.ts used by the builders scan the source text
  with regular expressions or render signatures. The builders use their results as plain
  lists of names, so they are parameters of the model: every theorem below holds for all
  functions of these types.
\<close>

record abiExtractor =
  extractFunctionSignatures :: "ABIItem list \<Rightarrow> string list"
  extractEventSignatures :: "ABIItem list \<Rightarrow> string list"
  extractInheritance :: "string \<Rightarrow> string list"
  extractImports :: "string \<Rightarrow> string list"
  extractExternalCalls :: "string \<Rightarrow> string list"
  extractInterfacesFromSource :: "string \<Rightarrow> string list"


section \<open>Batch contract fetcher (batchContractFetcher.ts)\<close>

text \<open>Numbers are integers, as \<^verbatim>\<open>parseInt\<close> and the defaults produce them.\<close>

record FetchOptions =
  batchSize :: int
  delayBetweenRequests :: int
  delayBetweenBatches :: int
  maxRetries :: int
  resumeFromIndex :: "int option"
  outputDir :: string
  saveProgress :: bool

record ProcessingStatus =
  totalContracts :: int
  processedContracts :: int
  failedContracts :: "string list"
  lastProcessedIndex :: int
  startedAt :: string
  lastUpdatedAt :: string

definition DEFAULT_FETCH_OPTIONS :: FetchOptions where
  "DEFAULT_FETCH_OPTIONS =
     \<lparr> batchSize = 10, delayBetweenRequests = 200, delayBetweenBatches = 2000, maxRetries = 3,
       resumeFromIndex = None, outputDir = ''./contract_data'', saveProgress = True \<rparr>"

text \<open>
  \<^verbatim>\<open>fetchContract\<close> performs the HTTP request, so its outcome belongs to the
  environment: a call either throws an error with a message or returns the fetched
  contract. The effects the fetcher has on the outside are recorded in a log: every call
  of \<^verbatim>\<open>fetchContract\<close>, every \<^verbatim>\<open>delay\<close> with its duration and every
  \<^verbatim>\<open>saveProgress\<close> with the results and the status it writes.
\<close>

datatype fetch_outcome = Threw string | Returned FetchedContract

datatype effect =
  FetchCall ContractEntry | Delay int | SaveProgress "FetchedContract list" ProcessingStatus

text \<open>
  What \<^verbatim>\<open>fetchContractWithRetry\<close> does: it returns a contract or throws
  \<^verbatim>\<open>lastError\<close>, which is still \<^verbatim>\<open>null\<close> (\<open>None\<close>) when the loop body never ran.
\<close>

datatype retry_result = Fetched FetchedContract | Raised "string option"

function fetchContractWithRetry_loop ::
  "FetchOptions \<Rightarrow> (ContractEntry \<Rightarrow> nat \<Rightarrow> fetch_outcome) \<Rightarrow> ContractEntry \<Rightarrow> nat
     \<Rightarrow> string option \<Rightarrow> effect list \<Rightarrow> retry_result \<times> effect list" where
  "fetchContractWithRetry_loop options fetchContract contract attempt lastError log =
     (if int attempt < maxRetries options then
        (case fetchContract contract attempt of
           Returned fetched \<Rightarrow> (Fetched fetched, log @ [FetchCall contract])
         | Threw message \<Rightarrow>
             (if str_includes message ''not found'' \<or> str_includes message ''not verified''
              then (Raised (Some message), log @ [FetchCall contract])
              else if int attempt < maxRetries options - 1
              then fetchContractWithRetry_loop options fetchContract contract (Suc attempt)
                     (Some message)
                     (log @ [FetchCall contract,
                             Delay (delayBetweenRequests options * 2 ^ attempt)])
              else fetchContractWithRetry_loop options fetchContract contract (Suc attempt)
                     (Some message) (log @ [FetchCall contract])))
      else (Raised lastError, log))"
  by pat_completeness auto
termination
  by (relation "measure (\<lambda>(options, fetchContract, contract, attempt, lastError, log).
                   nat (maxRetries options - int attempt))") auto

definition fetchContractWithRetry ::
  "FetchOptions \<Rightarrow> (ContractEntry \<Rightarrow> nat \<Rightarrow> fetch_outcome) \<Rightarrow> ContractEntry \<Rightarrow> effect list
     \<Rightarrow> retry_result \<times> effect list" where
  "fetchContractWithRetry options fetchContract contract log =
     fetchContractWithRetry_loop options fetchContract contract 0 None log"

text \<open>
  \<^verbatim>\<open>fetchContract\<close>. The request belongs to the environment: \<^verbatim>\<open>axios.get\<close> rejects
  with an error that has a message (a timeout, a status code outside 2xx) or resolves with
  the body of the response. Of the body the function reads the fields \<^verbatim>\<open>status\<close>,
  \<^verbatim>\<open>message\<close> and \<^verbatim>\<open>result\<close>, in this order in the constructor below (the interface
  \<^verbatim>\<open>ContractSourceResponse\<close> is declared in contractService.ts); an absent field and an
  empty string are both falsy and are both the empty string here. The contract returned for
  a body that passes the checks is put together with \<^verbatim>\<open>parseSourceCode\<close>
  (sourceParser.ts), \<^verbatim>\<open>JSON.parse\<close> and the clock; it is the parameter \<open>assemble\<close>.
\<close>

datatype ContractSourceResponse = ContractSourceResponse string string string

datatype axios_outcome = AxiosRejected string | AxiosResolved ContractSourceResponse

definition fetchContract ::
  "(ContractEntry \<Rightarrow> ContractSourceResponse \<Rightarrow> FetchedContract) \<Rightarrow> axios_outcome \<Rightarrow> ContractEntry
     \<Rightarrow> fetch_outcome" where
  "fetchContract assemble response contract =
     (if \<not> chainIdTruthy (ContractEntry.blockchain contract)
      then Threw (''Unsupported blockchain: '' @ ContractEntry.blockchain contract)
      else
        (case response of
           AxiosRejected error \<Rightarrow> Threw error
         | AxiosResolved (ContractSourceResponse status message result) \<Rightarrow>
             (if status \<noteq> ''1''
              then Threw (if message \<noteq> [] then message
                          else ''Contract not found or not verified'')
              else if result = [] then Threw ''No source code found''
              else Returned (assemble contract (ContractSourceResponse status message result)))))"

text \<open>
  The fetcher object. The progress callback is called inside the \<^verbatim>\<open>try\<close> block of
  \<^verbatim>\<open>processBatch\<close>; it returns normally (\<open>None\<close>) or throws (\<open>Some\<close> message).
\<close>

record BatchContractFetcher =
  options :: FetchOptions
  status :: ProcessingStatus
  onProgress :: "(ProcessingStatus \<Rightarrow> ContractEntry \<Rightarrow> string option) option"

text \<open>
  The constructor, for options already merged with the defaults; \<open>now\<close> is the time stamp
  \<^verbatim>\<open>new Date().toISOString()\<close>.
\<close>

definition newBatchContractFetcher :: "FetchOptions \<Rightarrow> string \<Rightarrow> BatchContractFetcher" where
  "newBatchContractFetcher opts now =
     \<lparr> options = opts,
       status = \<lparr> totalContracts = 0, processedContracts = 0, failedContracts = [],
                  lastProcessedIndex = - 1, startedAt = now, lastUpdatedAt = now \<rparr>,
       onProgress = None \<rparr>"

definition pushFailed :: "BatchContractFetcher \<Rightarrow> ContractEntry \<Rightarrow> BatchContractFetcher" where
  "pushFailed this contract =
     this\<lparr>status := (status this)\<lparr>failedContracts :=
        failedContracts (status this) @ [ContractEntry.address contract]\<rparr>\<rparr>"

text \<open>
  \<^verbatim>\<open>processBatch\<close>. The environment is indexed by the global index of the entry: \<open>world g\<close>
  gives the outcomes of the successive calls of \<^verbatim>\<open>fetchContract\<close> for the entry at
  global index \<open>g\<close>. The loop runs over \<^verbatim>\<open>batch[i]\<close> for \<open>i = 0, 1, ...\<close>; the
  recursion is on the entries still to come, so \<^verbatim>\<open>i < batch.length - 1\<close> reads
  \<open>rest \<noteq> []\<close>.
\<close>

fun processBatch_loop ::
  "(int \<Rightarrow> ContractEntry \<Rightarrow> nat \<Rightarrow> fetch_outcome) \<Rightarrow> int \<Rightarrow> ContractEntry list \<Rightarrow> nat
     \<Rightarrow> BatchContractFetcher \<Rightarrow> FetchedContract list \<Rightarrow> effect list
     \<Rightarrow> FetchedContract list \<times> BatchContractFetcher \<times> effect list" where
  "processBatch_loop world batchStartIndex [] i this results log = (results, this, log)"
| "processBatch_loop world batchStartIndex (contract # rest) i this results log =
     (let globalIndex = batchStartIndex + int i;
          notified = (case onProgress this of
                        None \<Rightarrow> None
                      | Some callback \<Rightarrow> callback (status this) contract);
          (this', results', log') =
            (case notified of
               Some error \<Rightarrow> (pushFailed this contract, results, log)
             | None \<Rightarrow>
                 (case fetchContractWithRetry (options this) (world globalIndex) contract log of
                    (Fetched fetched, log1) \<Rightarrow> (this, results @ [fetched], log1)
                  | (Raised error, log1) \<Rightarrow> (pushFailed this contract, results, log1)));
          log'' = (if rest \<noteq> [] then log' @ [Delay (delayBetweenRequests (options this))]
                   else log')
      in processBatch_loop world batchStartIndex rest (Suc i) this' results' log'')"

definition processBatch ::
  "(int \<Rightarrow> ContractEntry \<Rightarrow> nat \<Rightarrow> fetch_outcome) \<Rightarrow> BatchContractFetcher \<Rightarrow> ContractEntry list
     \<Rightarrow> int \<Rightarrow> effect list \<Rightarrow> FetchedContract list \<times> BatchContractFetcher \<times> effect list" where
  "processBatch world this batch batchStartIndex log =
     processBatch_loop world batchStartIndex batch 0 this [] log"

text \<open>\<^verbatim>\<open>xs.slice(start, end)\<close> for integer arguments.\<close>

definition slice :: "'a list \<Rightarrow> int \<Rightarrow> int \<Rightarrow> 'a list" where
  "slice xs start finish =
     (let len = int (length xs);
          lo = (if start < 0 then max (len + start) 0 else min start len);
          hi = (if finish < 0 then max (len + finish) 0 else min finish len)
      in take (nat (hi - lo)) (drop (nat lo) xs))"

text \<open>
  \<^verbatim>\<open>fetchAll\<close>. What \<^verbatim>\<open>loadPreviousResults\<close> reads from the disk and the time stamps
  are given by the environment (\<open>previousResults\<close>, \<open>started\<close>, and \<open>clock i\<close> for the time
  at which the batch that starts at index \<open>i\<close> is done); \<^verbatim>\<open>ensureOutputDir\<close> and the
  writes of \<^verbatim>\<open>saveProgress\<close> are taken to succeed, and each \<^verbatim>\<open>saveProgress\<close> is
  recorded in the log with what it writes. The loop
  \<^verbatim>\<open>for (let i = startIndex; i < contracts.length; i += this.options.batchSize)\<close> does
  not end when the batch size is zero or negative, so it is a partial function: \<open>None\<close>
  stands for a run that never returns.
\<close>

definition afterBatch ::
  "(int \<Rightarrow> string) \<Rightarrow> ContractEntry list \<Rightarrow> int \<Rightarrow> FetchedContract list \<Rightarrow> BatchContractFetcher
     \<Rightarrow> BatchContractFetcher" where
  "afterBatch clock contracts i results this =
     this\<lparr>status := (status this)
       \<lparr> lastProcessedIndex :=
           min (i + batchSize (options this) - 1) (int (length contracts) - 1),
         processedContracts := int (length results),
         lastUpdatedAt := clock i \<rparr>\<rparr>"

partial_function (option) fetchAll_loop ::
  "(int \<Rightarrow> ContractEntry \<Rightarrow> nat \<Rightarrow> fetch_outcome) \<Rightarrow> (int \<Rightarrow> string) \<Rightarrow> ContractEntry list \<Rightarrow> int
     \<Rightarrow> BatchContractFetcher \<Rightarrow> FetchedContract list \<Rightarrow> effect list
     \<Rightarrow> (FetchedContract list \<times> BatchContractFetcher \<times> effect list) option" where
  "fetchAll_loop world clock contracts i this results log =
     (if i < int (length contracts) then
        (case processBatch world this (slice contracts i (i + batchSize (options this))) i log of
           (batchResults, this1, log1) \<Rightarrow>
             fetchAll_loop world clock contracts (i + batchSize (options this1))
               (afterBatch clock contracts i (results @ batchResults) this1)
               (results @ batchResults)
               ((if saveProgress (options this1)
                 then log1 @ [SaveProgress (results @ batchResults)
                                (status (afterBatch clock contracts i (results @ batchResults) this1))]
                 else log1)
                @ (if i + batchSize (options this1) < int (length contracts)
                   then [Delay (delayBetweenBatches (options this1))] else [])))
      else Some (results, this, log))"

text \<open>The index at which a run starts, \<^verbatim>\<open>this.options.resumeFromIndex ?? 0\<close>.\<close>

definition startIndexOf :: "FetchOptions \<Rightarrow> int" where
  "startIndexOf opts = (case resumeFromIndex opts of None \<Rightarrow> 0 | Some k \<Rightarrow> k)"

definition fetchAll ::
  "(int \<Rightarrow> ContractEntry \<Rightarrow> nat \<Rightarrow> fetch_outcome) \<Rightarrow> string \<Rightarrow> (int \<Rightarrow> string)
     \<Rightarrow> FetchedContract list \<Rightarrow> BatchContractFetcher \<Rightarrow> ContractEntry list \<Rightarrow> effect list
     \<Rightarrow> (FetchedContract list \<times> BatchContractFetcher \<times> effect list) option" where
  "fetchAll world started clock previousResults this contracts log =
     (let this0 = this\<lparr>status := (status this)
                    \<lparr> totalContracts := int (length contracts), startedAt := started \<rparr>\<rparr>;
          startIndex = startIndexOf (options this);
          results = (if startIndex > 0 then previousResults else [])
      in fetchAll_loop world clock contracts startIndex this0 results log)"


section \<open>Code graph builder (codeGraphBuilder.ts)\<close>

datatype RelationshipType =
  Rel_inherits | Rel_imports | Rel_calls | Rel_creates | Rel_uses_interface
  | Rel_same_protocol | Rel_similar_code

record EdgeMetadata =
  functionName :: "string option"
  eventName :: "string option"
  similarity :: "int option"

record ContractEdge =
  source :: string
  target :: string
  relationshipType :: RelationshipType
  metadata :: "EdgeMetadata option"

record ContractNode =
  address :: string
  blockchain :: string
  contractName :: string
  protocol :: string
  "functions" :: "string list"
  events :: "string list"
  hasProxy :: bool
  implementsInterfaces :: "string list"

record CodeGraphMetadata =
  generatedAt :: string
  totalContracts :: nat
  totalRelationships :: nat
  protocols :: "string list"
  blockchains :: "string list"

record CodeGraph =
  nodes :: "ContractNode list"
  edges :: "ContractEdge list"
  metadata :: CodeGraphMetadata

text \<open>
  The builder object: the two \<^verbatim>\<open>Map\<close>s keyed by lower-cased address, the edge array
  and the name index.
\<close>

record CodeGraphBuilder =
  nodes :: "(string \<times> ContractNode) list"
  edges :: "ContractEdge list"
  addressToContract :: "(string \<times> FetchedContract) list"
  nameToAddresses :: "(string \<times> string list) list"

definition newCodeGraphBuilder :: CodeGraphBuilder where
  "newCodeGraphBuilder =
     \<lparr> CodeGraphBuilder.nodes = [], CodeGraphBuilder.edges = [],
       addressToContract = [], nameToAddresses = [] \<rparr>"

definition code_buildNode :: "abiExtractor \<Rightarrow> FetchedContract \<Rightarrow> ContractNode" where
  "code_buildNode X contract =
     \<lparr> ContractNode.address = FetchedContract.address contract,
       ContractNode.blockchain = FetchedContract.blockchain contract,
       ContractNode.contractName = FetchedContract.contractName contract,
       ContractNode.protocol = FetchedContract.protocol contract,
       functions = take 50 (extractFunctionSignatures X (abiOrEmpty contract)),
       events = take 20 (extractEventSignatures X (abiOrEmpty contract)),
       hasProxy = detectProxyPattern (abiOrEmpty contract),
       implementsInterfaces = extractInterfacesFromSource X (joinedSource contract) \<rparr>"

definition code_hasEdge ::
  "CodeGraphBuilder \<Rightarrow> string \<Rightarrow> string \<Rightarrow> RelationshipType \<Rightarrow> bool" where
  "code_hasEdge this src tgt rel =
     list_ex (\<lambda>e. ContractEdge.source e = src \<and> ContractEdge.target e = tgt
                   \<and> relationshipType e = rel) (CodeGraphBuilder.edges this)"

definition code_addEdge ::
  "CodeGraphBuilder \<Rightarrow> string \<Rightarrow> string \<Rightarrow> RelationshipType \<Rightarrow> EdgeMetadata option
     \<Rightarrow> CodeGraphBuilder" where
  "code_addEdge this src tgt rel md =
     (if \<not> code_hasEdge this src tgt rel
      then this\<lparr>CodeGraphBuilder.edges := CodeGraphBuilder.edges this @
             [\<lparr> ContractEdge.source = src, ContractEdge.target = tgt,
                relationshipType = rel, ContractEdge.metadata = md \<rparr>]\<rparr>
      else this)"

definition findContractsByName :: "CodeGraphBuilder \<Rightarrow> string \<Rightarrow> string list" where
  "findContractsByName this nm =
     (case mapGet (nameToAddresses this) (toLowerCase nm) of
        Some addresses \<Rightarrow> addresses
      | None \<Rightarrow> [])"

definition buildSameProtocolEdges :: "CodeGraphBuilder \<Rightarrow> FetchedContract \<Rightarrow> CodeGraphBuilder" where
  "buildSameProtocolEdges this contract =
     (let contractAddress = toLowerCase (FetchedContract.address contract)
      in foldl (\<lambda>this (addr, node).
                  if addr \<noteq> contractAddress
                     \<and> ContractNode.protocol node = FetchedContract.protocol contract
                  then (if \<not> code_hasEdge this contractAddress addr Rel_same_protocol
                        then this\<lparr>CodeGraphBuilder.edges := CodeGraphBuilder.edges this @
                               [\<lparr> ContractEdge.source = contractAddress,
                                  ContractEdge.target = addr,
                                  relationshipType = Rel_same_protocol,
                                  ContractEdge.metadata = None \<rparr>]\<rparr>
                        else this)
                  else this)
           this (CodeGraphBuilder.nodes this))"

text \<open>
  The inner loop shared by the four name-resolving passes:
  \<^verbatim>\<open>for (const targetAddress of targetAddresses) if (targetAddress !== contractAddress) this.addEdge(...)\<close>.
\<close>

definition addEdgesTo ::
  "CodeGraphBuilder \<Rightarrow> string \<Rightarrow> string list \<Rightarrow> RelationshipType \<Rightarrow> EdgeMetadata option
     \<Rightarrow> CodeGraphBuilder" where
  "addEdgesTo this contractAddress targetAddresses rel md =
     foldl (\<lambda>this targetAddress.
              if targetAddress \<noteq> contractAddress
              then code_addEdge this contractAddress targetAddress rel md
              else this)
       this targetAddresses"

definition buildInheritanceEdges ::
  "abiExtractor \<Rightarrow> CodeGraphBuilder \<Rightarrow> FetchedContract \<Rightarrow> string \<Rightarrow> CodeGraphBuilder" where
  "buildInheritanceEdges X this contract sourceText =
     (let contractAddress = toLowerCase (FetchedContract.address contract)
      in foldl (\<lambda>this inherited.
                  addEdgesTo this contractAddress (findContractsByName this inherited)
                    Rel_inherits None)
           this (extractInheritance X sourceText))"

text \<open>
  \<^verbatim>\<open>importPath.match(/\/([^/]+)\.sol$/)\<close>: the path ends in \<^verbatim>\<open>.sol\<close>, and what stands
  between its last slash and that ending is a non-empty name.
\<close>

definition importContractName :: "string \<Rightarrow> string option" where
  "importContractName importPath =
     (let n = length importPath
      in if 4 \<le> n \<and> drop (n - 4) importPath = ''.sol''
         then (let stem = take (n - 4) importPath;
                   nm = rev (takeWhile (\<lambda>c. c \<noteq> CHR ''/'') (rev stem))
               in if nm \<noteq> [] \<and> length nm < length stem then Some nm else None)
         else None)"

definition buildImportEdges ::
  "abiExtractor \<Rightarrow> CodeGraphBuilder \<Rightarrow> FetchedContract \<Rightarrow> string \<Rightarrow> CodeGraphBuilder" where
  "buildImportEdges X this contract sourceText =
     (let contractAddress = toLowerCase (FetchedContract.address contract)
      in foldl (\<lambda>this importPath.
                  case importContractName importPath of
                    Some nm \<Rightarrow>
                      addEdgesTo this contractAddress (findContractsByName this nm)
                        Rel_imports None
                  | None \<Rightarrow> this)
           this (extractImports X sourceText))"

text \<open>\<^verbatim>\<open>const [interfaceName, functionName] = call.split('.')\<close>.\<close>

definition splitCall :: "string \<Rightarrow> string \<times> string option" where
  "splitCall call =
     (takeWhile (\<lambda>c. c \<noteq> CHR ''.'') call,
      case dropWhile (\<lambda>c. c \<noteq> CHR ''.'') call of
        [] \<Rightarrow> None
      | dot # rest \<Rightarrow> Some (takeWhile (\<lambda>c. c \<noteq> CHR ''.'') rest))"

definition buildExternalCallEdges ::
  "abiExtractor \<Rightarrow> CodeGraphBuilder \<Rightarrow> FetchedContract \<Rightarrow> string \<Rightarrow> CodeGraphBuilder" where
  "buildExternalCallEdges X this contract sourceText =
     (let contractAddress = toLowerCase (FetchedContract.address contract)
      in foldl (\<lambda>this call.
                  case splitCall call of
                    (interfaceName, fnName) \<Rightarrow>
                      addEdgesTo this contractAddress (findContractsByName this interfaceName)
                        Rel_calls
                        (Some \<lparr> functionName = fnName, eventName = None, similarity = None \<rparr>))
           this (extractExternalCalls X sourceText))"

definition buildInterfaceEdges ::
  "abiExtractor \<Rightarrow> CodeGraphBuilder \<Rightarrow> FetchedContract \<Rightarrow> string \<Rightarrow> CodeGraphBuilder" where
  "buildInterfaceEdges X this contract sourceText =
     (let contractAddress = toLowerCase (FetchedContract.address contract)
      in foldl (\<lambda>this interfaceName.
                  addEdgesTo this contractAddress (findContractsByName this interfaceName)
                    Rel_uses_interface None)
           this (extractInterfacesFromSource X sourceText))"

text \<open>
  The address literals of a source text that name another known node, lower-cased, as the
  \<^verbatim>\<open>Set\<close> both builders collect them in.
\<close>

definition referencedNodes :: "string list \<Rightarrow> string \<Rightarrow> string \<Rightarrow> string list" where
  "referencedNodes nodeKeys contractAddress sourceText =
     foldl (\<lambda>found match.
              let addr = toLowerCase match
              in if addr \<noteq> contractAddress \<and> addr \<in> set nodeKeys
                 then setAdd found addr else found)
       [] (findAddresses sourceText)"

definition buildAddressReferenceEdges ::
  "CodeGraphBuilder \<Rightarrow> FetchedContract \<Rightarrow> string \<Rightarrow> CodeGraphBuilder" where
  "buildAddressReferenceEdges this contract sourceText =
     (let contractAddress = toLowerCase (FetchedContract.address contract);
          foundAddresses =
            referencedNodes (map fst (CodeGraphBuilder.nodes this)) contractAddress sourceText
      in foldl (\<lambda>this targetAddress.
                  code_addEdge this contractAddress targetAddress Rel_calls None)
           this foundAddresses)"

definition buildEdgesForContract ::
  "abiExtractor \<Rightarrow> CodeGraphBuilder \<Rightarrow> FetchedContract \<Rightarrow> CodeGraphBuilder" where
  "buildEdgesForContract X this contract =
     (let sourceText = joinedSource contract;
          this1 = buildSameProtocolEdges this contract;
          this2 = buildInheritanceEdges X this1 contract sourceText;
          this3 = buildImportEdges X this2 contract sourceText;
          this4 = buildExternalCallEdges X this3 contract sourceText;
          this5 = buildInterfaceEdges X this4 contract sourceText
      in buildAddressReferenceEdges this5 contract sourceText)"

definition code_indexContract :: "CodeGraphBuilder \<Rightarrow> FetchedContract \<Rightarrow> CodeGraphBuilder" where
  "code_indexContract this contract =
     (let normalizedName = toLowerCase (FetchedContract.contractName contract);
          addresses = (case mapGet (nameToAddresses this) normalizedName of
                         Some found \<Rightarrow> found | None \<Rightarrow> [])
      in this\<lparr> addressToContract :=
                 mapSet (addressToContract this) (toLowerCase (FetchedContract.address contract))
                   contract,
               nameToAddresses :=
                 mapSet (nameToAddresses this) normalizedName
                   (addresses @ [toLowerCase (FetchedContract.address contract)]) \<rparr>)"

definition code_addContracts ::
  "abiExtractor \<Rightarrow> CodeGraphBuilder \<Rightarrow> FetchedContract list \<Rightarrow> CodeGraphBuilder" where
  "code_addContracts X this contracts =
     (let indexed = foldl code_indexContract this contracts;
          withNodes = foldl (\<lambda>this contract.
                               this\<lparr>CodeGraphBuilder.nodes :=
                                 mapSet (CodeGraphBuilder.nodes this)
                                   (toLowerCase (FetchedContract.address contract))
                                   (code_buildNode X contract)\<rparr>)
                        indexed contracts
      in foldl (buildEdgesForContract X) withNodes contracts)"

definition code_build :: "string \<Rightarrow> CodeGraphBuilder \<Rightarrow> CodeGraph" where
  "code_build now this =
     \<lparr> CodeGraph.nodes = mapValues (CodeGraphBuilder.nodes this),
       CodeGraph.edges = CodeGraphBuilder.edges this,
       CodeGraph.metadata =
         \<lparr> generatedAt = now,
           totalContracts = length (CodeGraphBuilder.nodes this),
           totalRelationships = length (CodeGraphBuilder.edges this),
           protocols = newSet (map ContractNode.protocol (mapValues (CodeGraphBuilder.nodes this))),
           blockchains =
             newSet (map ContractNode.blockchain (mapValues (CodeGraphBuilder.nodes this))) \<rparr> \<rparr>"


section \<open>Communication graph builder (communicationGraphBuilder.ts)\<close>

datatype CommunicationPattern =
  Pat_token_transfer | Pat_token_approval | Pat_swap | Pat_liquidity | Pat_stake
  | Pat_governance | Pat_oracle | Pat_bridge | Pat_lending | Pat_nft_mint | Pat_callback
  | Pat_flash_loan | Pat_generic_call

datatype ContractRole =
  Role_token | Role_dex | Role_lending | Role_vault | Role_governance | Role_oracle
  | Role_bridge | Role_router | Role_factory | Role_proxy | Role_multisig | Role_unknown

datatype Frequency = High | Medium | Low

record CommunicationEdge =
  source :: string
  target :: string
  pattern :: CommunicationPattern
  "functions" :: "string list"
  events :: "string list"
  bidirectional :: bool
  frequency :: "Frequency option"

record CommunicationNode =
  address :: string
  contractName :: string
  protocol :: string
  blockchain :: string
  role :: ContractRole
  communicationCount :: nat
  inboundCount :: nat
  outboundCount :: nat

record CommunicationGraphMetadata =
  generatedAt :: string
  totalContracts :: nat
  totalCommunications :: nat

record CommunicationGraph =
  nodes :: "CommunicationNode list"
  edges :: "CommunicationEdge list"
  patterns :: "CommunicationPattern \<Rightarrow> nat"
  metadata :: CommunicationGraphMetadata

record CommunicationGraphBuilder =
  nodes :: "(string \<times> CommunicationNode) list"
  edges :: "CommunicationEdge list"
  addressToContract :: "(string \<times> FetchedContract) list"

definition newCommunicationGraphBuilder :: CommunicationGraphBuilder where
  "newCommunicationGraphBuilder =
     \<lparr> CommunicationGraphBuilder.nodes = [], CommunicationGraphBuilder.edges = [],
       CommunicationGraphBuilder.addressToContract = [] \<rparr>"

text \<open>\<^verbatim>\<open>functions.has(x)\<close> on the \<^verbatim>\<open>Set<string | undefined>\<close> of lower-cased names.\<close>

definition has :: "string option list \<Rightarrow> string \<Rightarrow> bool" where
  "has fns x = (Some x \<in> set fns)"

definition hasERC20Functions :: "string option list \<Rightarrow> bool" where
  "hasERC20Functions fns = (has fns ''transfer'' \<and> has fns ''approve'' \<and> has fns ''balanceof'')"

definition hasDEXFunctions :: "string option list \<Rightarrow> bool" where
  "hasDEXFunctions fns =
     (has fns ''swap'' \<or> has fns ''swapexacttokensfortokens'' \<or> has fns ''addliquidity''
      \<or> has fns ''removeliquidity'')"

definition hasLendingFunctions :: "string option list \<Rightarrow> bool" where
  "hasLendingFunctions fns =
     (has fns ''borrow'' \<or> has fns ''repay'' \<or> has fns ''liquidate''
      \<or> (has fns ''supply'' \<and> has fns ''withdraw''))"

definition hasGovernanceFunctions :: "string option list \<Rightarrow> bool" where
  "hasGovernanceFunctions fns =
     (has fns ''propose'' \<or> has fns ''castvote'' \<or> has fns ''queue'' \<or> has fns ''execute'')"

definition detectContractRole :: "FetchedContract \<Rightarrow> ContractRole" where
  "detectContractRole contract =
     (let nm = toLowerCase (FetchedContract.contractName contract);
          functionNames = newSet (map (\<lambda>i. map_option toLowerCase (name i))
                                    (filter (\<lambda>i. type i = ABI_function) (abiOrEmpty contract)))
      in if hasERC20Functions functionNames \<or> str_includes nm ''token'' then Role_token
         else if hasDEXFunctions functionNames \<or> str_includes nm ''swap''
                 \<or> str_includes nm ''router'' then Role_dex
         else if str_includes nm ''router'' then Role_router
         else if has functionNames ''createpair'' \<or> has functionNames ''createpool''
                 \<or> str_includes nm ''factory'' then Role_factory
         else if hasLendingFunctions functionNames \<or> str_includes nm ''lend''
                 \<or> str_includes nm ''borrow'' then Role_lending
         else if has functionNames ''deposit'' \<and> has functionNames ''withdraw''
                 \<and> str_includes nm ''vault'' then Role_vault
         else if hasGovernanceFunctions functionNames \<or> str_includes nm ''governance''
                 \<or> str_includes nm ''governor'' then Role_governance
         else if has functionNames ''latestanswer'' \<or> has functionNames ''getprice''
                 \<or> str_includes nm ''oracle'' then Role_oracle
         else if str_includes nm ''bridge'' \<or> has functionNames ''sendmessage''
                 \<or> has functionNames ''receivemessage'' then Role_bridge
         else if has functionNames ''implementation'' \<or> has functionNames ''upgradeto''
              then Role_proxy
         else if has functionNames ''submittransaction'' \<or> has functionNames ''confirmtransaction''
                 \<or> str_includes nm ''multisig'' then Role_multisig
         else Role_unknown)"

definition comm_buildNode :: "FetchedContract \<Rightarrow> CommunicationNode" where
  "comm_buildNode contract =
     \<lparr> CommunicationNode.address = FetchedContract.address contract,
       CommunicationNode.contractName = FetchedContract.contractName contract,
       CommunicationNode.protocol = FetchedContract.protocol contract,
       CommunicationNode.blockchain = FetchedContract.blockchain contract,
       role = detectContractRole contract,
       communicationCount = 0, inboundCount = 0, outboundCount = 0 \<rparr>"

definition detectCommunicationPattern ::
  "FetchedContract \<Rightarrow> FetchedContract \<Rightarrow> string \<Rightarrow> CommunicationPattern" where
  "detectCommunicationPattern src tgt sourceText =
     (let targetRole = detectContractRole tgt
      in if targetRole = Role_token
            \<and> (str_includes sourceText ''.transfer('' \<or> str_includes sourceText ''.transferFrom('')
         then Pat_token_transfer
         else if targetRole = Role_token \<and> str_includes sourceText ''.approve(''
         then Pat_token_approval
         else if (targetRole = Role_dex \<or> targetRole = Role_router)
                 \<and> (str_includes sourceText ''swap'' \<or> str_includes sourceText ''Swap'')
         then Pat_swap
         else if (targetRole = Role_dex \<or> targetRole = Role_router)
                 \<and> (str_includes sourceText ''addLiquidity''
                      \<or> str_includes sourceText ''removeLiquidity'')
         then Pat_liquidity
         else if targetRole = Role_lending then Pat_lending
         else if targetRole = Role_oracle then Pat_oracle
         else if targetRole = Role_bridge then Pat_bridge
         else if targetRole = Role_governance then Pat_governance
         else if str_includes sourceText ''Callback'' \<or> str_includes sourceText ''callback''
         then Pat_callback
         else if str_includes sourceText ''flashLoan'' \<or> str_includes sourceText ''FlashLoan''
         then Pat_flash_loan
         else Pat_generic_call)"

text \<open>The names of the items of one type whose name is present and not empty.\<close>

definition namedItems :: "ABIType \<Rightarrow> ABIItem list \<Rightarrow> string list" where
  "namedItems ty items =
     concat (map (\<lambda>i. case name i of
                         Some n \<Rightarrow> (if type i = ty \<and> n \<noteq> [] then [n] else [])
                       | None \<Rightarrow> [])
               items)"

definition findRelatedFunctions ::
  "FetchedContract \<Rightarrow> FetchedContract \<Rightarrow> string \<Rightarrow> string list" where
  "findRelatedFunctions src tgt sourceText =
     filter (\<lambda>fn. str_includes sourceText (''.'' @ fn @ ''('') \<or> str_includes sourceText (fn @ ''(''))
       (namedItems ABI_function (abiOrEmpty tgt))"

definition findRelatedEvents :: "FetchedContract \<Rightarrow> FetchedContract \<Rightarrow> string list" where
  "findRelatedEvents src tgt = take 10 (namedItems ABI_event (abiOrEmpty src))"

definition checkBidirectional :: "CommunicationGraphBuilder \<Rightarrow> string \<Rightarrow> string \<Rightarrow> bool" where
  "checkBidirectional this address1 address2 =
     list_ex (\<lambda>e. CommunicationEdge.source e = address2 \<and> CommunicationEdge.target e = address1)
       (CommunicationGraphBuilder.edges this)"

definition comm_addEdge ::
  "CommunicationGraphBuilder \<Rightarrow> CommunicationEdge \<Rightarrow> CommunicationGraphBuilder" where
  "comm_addEdge this edge =
     (let exists = list_ex (\<lambda>e. CommunicationEdge.source e = CommunicationEdge.source edge
                                 \<and> CommunicationEdge.target e = CommunicationEdge.target edge
                                 \<and> pattern e = pattern edge)
                     (CommunicationGraphBuilder.edges this)
      in if \<not> exists
         then this\<lparr>CommunicationGraphBuilder.edges :=
                     CommunicationGraphBuilder.edges this @ [edge]\<rparr>
         else this)"

text \<open>
  \<^verbatim>\<open>analyzeByFunctionPatterns\<close> filters the callback-like functions of the ABI into a
  local constant and does nothing with it: the builder is unchanged.
\<close>

definition analyzeByFunctionPatterns ::
  "CommunicationGraphBuilder \<Rightarrow> FetchedContract \<Rightarrow> CommunicationGraphBuilder" where
  "analyzeByFunctionPatterns this contract = this"

definition analyzeCommunications ::
  "CommunicationGraphBuilder \<Rightarrow> FetchedContract \<Rightarrow> CommunicationGraphBuilder" where
  "analyzeCommunications this contract =
     (let sourceText = joinedSource contract;
          contractAddress = toLowerCase (FetchedContract.address contract);
          referencedAddresses =
            referencedNodes (map fst (CommunicationGraphBuilder.nodes this)) contractAddress
              sourceText;
          analyzed =
            foldl (\<lambda>this targetAddress.
                     case mapGet (CommunicationGraphBuilder.addressToContract this) targetAddress of
                       Some targetContract \<Rightarrow>
                         comm_addEdge this
                           \<lparr> CommunicationEdge.source = contractAddress,
                             CommunicationEdge.target = targetAddress,
                             pattern = detectCommunicationPattern contract targetContract sourceText,
                             CommunicationEdge.functions =
                               findRelatedFunctions contract targetContract sourceText,
                             CommunicationEdge.events = findRelatedEvents contract targetContract,
                             bidirectional = checkBidirectional this contractAddress targetAddress,
                             frequency = None \<rparr>
                     | None \<Rightarrow> this)
              this referencedAddresses
      in analyzeByFunctionPatterns analyzed contract)"

definition updateCommunicationCounts :: "CommunicationGraphBuilder \<Rightarrow> CommunicationGraphBuilder" where
  "updateCommunicationCounts this =
     this\<lparr>CommunicationGraphBuilder.nodes :=
       map (\<lambda>(key, node).
              let outbound = length (filter (\<lambda>e. CommunicationEdge.source e
                                                    = toLowerCase (CommunicationNode.address node))
                                       (CommunicationGraphBuilder.edges this));
                  inbound = length (filter (\<lambda>e. CommunicationEdge.target e
                                                   = toLowerCase (CommunicationNode.address node))
                                      (CommunicationGraphBuilder.edges this))
              in (key, node\<lparr> outboundCount := outbound, inboundCount := inbound,
                             communicationCount := outbound + inbound \<rparr>))
         (CommunicationGraphBuilder.nodes this)\<rparr>"

definition comm_addContracts ::
  "CommunicationGraphBuilder \<Rightarrow> FetchedContract list \<Rightarrow> CommunicationGraphBuilder" where
  "comm_addContracts this contracts =
     (let indexed = foldl (\<lambda>this contract.
                             this\<lparr>CommunicationGraphBuilder.addressToContract :=
                               mapSet (CommunicationGraphBuilder.addressToContract this)
                                 (toLowerCase (FetchedContract.address contract)) contract\<rparr>)
                      this contracts;
          withNodes = foldl (\<lambda>this contract.
                               this\<lparr>CommunicationGraphBuilder.nodes :=
                                 mapSet (CommunicationGraphBuilder.nodes this)
                                   (toLowerCase (FetchedContract.address contract))
                                   (comm_buildNode contract)\<rparr>)
                        indexed contracts;
          analyzed = foldl analyzeCommunications withNodes contracts
      in updateCommunicationCounts analyzed)"

definition comm_build :: "string \<Rightarrow> CommunicationGraphBuilder \<Rightarrow> CommunicationGraph" where
  "comm_build now this =
     \<lparr> CommunicationGraph.nodes = mapValues (CommunicationGraphBuilder.nodes this),
       CommunicationGraph.edges = CommunicationGraphBuilder.edges this,
       patterns = (\<lambda>p. length (filter (\<lambda>e. pattern e = p) (CommunicationGraphBuilder.edges this))),
       CommunicationGraph.metadata =
         \<lparr> CommunicationGraphMetadata.generatedAt = now,
           CommunicationGraphMetadata.totalContracts = length (CommunicationGraphBuilder.nodes this),
           totalCommunications = length (CommunicationGraphBuilder.edges this) \<rparr> \<rparr>"


section \<open>Vocabulary of the properties\<close>

text \<open>
  The identity of an entry as the data model states it, the pair (blockchain, address), and
  the entries whose blockchain name has no colon in it.
\<close>

definition hasKey :: "string \<Rightarrow> string \<Rightarrow> ContractEntry \<Rightarrow> bool" where
  "hasKey b a contract = (ContractEntry.blockchain contract = b \<and> ContractEntry.address contract = a)"

definition pairKey :: "ContractEntry \<Rightarrow> string \<times> string" where
  "pairKey contract = (ContractEntry.blockchain contract, ContractEntry.address contract)"

definition colonFree :: "ContractEntry \<Rightarrow> bool" where
  "colonFree contract = (CHR '':'' \<notin> set (ContractEntry.blockchain contract))"

text \<open>The entries of the test ``removes duplicate contracts'' (automation.test.ts).\<close>

definition testEntries :: "ContractEntry list" where
  "testEntries =
     [\<lparr> ContractEntry.address = ''0x1234567890123456789012345678901234567890'',
        ContractEntry.blockchain = ''ethereum'', contract_name = ''Token'',
        ContractEntry.protocol = ''test'' \<rparr>,
      \<lparr> ContractEntry.address = ''0x1234567890123456789012345678901234567890'',
        ContractEntry.blockchain = ''ethereum'', contract_name = ''Token'',
        ContractEntry.protocol = ''test'' \<rparr>,
      \<lparr> ContractEntry.address = ''0x0987654321098765432109876543210987654321'',
        ContractEntry.blockchain = ''ethereum'', contract_name = ''Other'',
        ContractEntry.protocol = ''test'' \<rparr>]"


text \<open>
  The required names of the fungible-token interface, the set of names an ABI gives to its
  items of type \<^verbatim>\<open>function\<close>, and the ABI without the functions of one name.
\<close>

definition erc20Names :: "string list" where
  "erc20Names = [''name'', ''symbol'', ''decimals'', ''totalSupply'', ''balanceOf'',
                 ''transfer'', ''approve'', ''allowance'', ''transferFrom'']"

definition functionNameSet :: "ABIItem list \<Rightarrow> string set" where
  "functionNameSet items = {n. \<exists>item \<in> set items. type item = ABI_function \<and> name item = Some n}"

definition removeFunction :: "string \<Rightarrow> ABIItem list \<Rightarrow> ABIItem list" where
  "removeFunction r items =
     filter (\<lambda>item. \<not> (type item = ABI_function \<and> name item = Some r)) items"

text \<open>The ABI of the test ``detects ERC20 contracts'': nine functions, names only.\<close>

definition fnItem :: "string \<Rightarrow> ABIItem" where
  "fnItem n = \<lparr> type = ABI_function, name = Some n, inputs = None, outputs = None,
               stateMutability = None \<rparr>"

definition erc20Abi :: "ABIItem list" where
  "erc20Abi = map fnItem [''name'', ''symbol'', ''decimals'', ''totalSupply'', ''balanceOf'',
                          ''transfer'', ''approve'', ''allowance'', ''transferFrom'']"





definition dexContract :: FetchedContract where
  "dexContract =
     \<lparr> FetchedContract.address = ''0x1234567890123456789012345678901234567890'',
       FetchedContract.blockchain = ''ethereum'', chainId = ''1'',
       FetchedContract.contractName = ''Router'', FetchedContract.protocol = ''uniswap'',
       sourceCode = '''',
       abi = Some [fnItem ''swapExactTokensForTokens'', fnItem ''addLiquidity''],
       fetchedAt = '''', sources = [] \<rparr>"

text \<open>An edge of the code graph with a given deduplication key.\<close>

definition edgeHasKey :: "string \<Rightarrow> string \<Rightarrow> RelationshipType \<Rightarrow> ContractEdge \<Rightarrow> bool" where
  "edgeHasKey src tgt rel e =
     (ContractEdge.source e = src \<and> ContractEdge.target e = tgt \<and> relationshipType e = rel)"

text \<open>
  The retry loop in closed form. \<open>stopsRetries\<close> is the loop's own test of the message of
  a thrown error, \<^verbatim>\<open>message.includes('not found') || message.includes('not verified')\<close>:
  a search for these two texts as they are written, in lower case. It is not a
  classification of failures: a message that reports a missing contract in other words
  does not pass it. An attempt is retried when it throws a message that does not pass the
  test. \<open>backoffLog opts contract a k\<close> is what the attempts \<open>a, ..., k - 1\<close> leave in the
  log when each of them fails and is retried: the call, then the delay
  \<open>delayBetweenRequests * 2 ^ attempt\<close>.
\<close>

definition stopsRetries :: "string \<Rightarrow> bool" where
  "stopsRetries message =
     (str_includes message ''not found'' \<or> str_includes message ''not verified'')"

definition transientAt ::
  "(ContractEntry \<Rightarrow> nat \<Rightarrow> fetch_outcome) \<Rightarrow> ContractEntry \<Rightarrow> nat \<Rightarrow> bool" where
  "transientAt fetch contract j =
     (case fetch contract j of
        Threw message \<Rightarrow> \<not> stopsRetries message
      | Returned fetched \<Rightarrow> False)"

definition backoffLog :: "FetchOptions \<Rightarrow> ContractEntry \<Rightarrow> nat \<Rightarrow> nat \<Rightarrow> effect list" where
  "backoffLog opts contract a k =
     concat (map (\<lambda>j. [FetchCall contract, Delay (delayBetweenRequests opts * 2 ^ j)]) [a..<k])"

text \<open>
  What one entry of a batch ends with, taken by itself: the result of
  \<^verbatim>\<open>fetchContractWithRetry\<close> for the entry at its global index. \<open>fetchedOf\<close> and
  \<open>failedOf\<close> read the fetched contracts and the failed addresses off a list of such
  outcomes, in order. A callback is quiet when it never throws.
\<close>

definition retryOutcome ::
  "FetchOptions \<Rightarrow> (ContractEntry \<Rightarrow> nat \<Rightarrow> fetch_outcome) \<Rightarrow> ContractEntry \<Rightarrow> retry_result" where
  "retryOutcome opts fetch contract =
     fst (fetchContractWithRetry opts fetch contract [])"

definition quietCallback :: "BatchContractFetcher \<Rightarrow> bool" where
  "quietCallback this =
     (case onProgress this of
        None \<Rightarrow> True
      | Some callback \<Rightarrow> \<forall>st contract. callback st contract = None)"

definition batchOutcomes ::
  "(int \<Rightarrow> ContractEntry \<Rightarrow> nat \<Rightarrow> fetch_outcome) \<Rightarrow> FetchOptions \<Rightarrow> int \<Rightarrow> nat
     \<Rightarrow> ContractEntry list \<Rightarrow> (ContractEntry \<times> retry_result) list" where
  "batchOutcomes world opts batchStartIndex i batch =
     map (\<lambda>(j, contract). (contract, retryOutcome opts (world (batchStartIndex + int j)) contract))
       (enumerate i batch)"

definition fetchedOf :: "(ContractEntry \<times> retry_result) list \<Rightarrow> FetchedContract list" where
  "fetchedOf outcomes =
     concat (map (\<lambda>(contract, r). case r of Fetched fetched \<Rightarrow> [fetched] | Raised error \<Rightarrow> [])
               outcomes)"

definition failedOf :: "(ContractEntry \<times> retry_result) list \<Rightarrow> string list" where
  "failedOf outcomes =
     concat (map (\<lambda>(contract, r). case r of Fetched fetched \<Rightarrow> []
                                    | Raised error \<Rightarrow> [ContractEntry.address contract])
               outcomes)"

definition withFailed :: "BatchContractFetcher \<Rightarrow> string list \<Rightarrow> BatchContractFetcher" where
  "withFailed this addrs =
     this\<lparr>status := (status this)\<lparr>failedContracts := failedContracts (status this) @ addrs\<rparr>\<rparr>"

text \<open>
  The outcomes of a whole run from index \<open>k\<close> on: every entry with the outcome of its own
  fetch with retry at its own index in the list.
\<close>

definition runOutcomes ::
  "(int \<Rightarrow> ContractEntry \<Rightarrow> nat \<Rightarrow> fetch_outcome) \<Rightarrow> FetchOptions \<Rightarrow> nat \<Rightarrow> ContractEntry list
     \<Rightarrow> (ContractEntry \<times> retry_result) list" where
  "runOutcomes world opts k contracts = batchOutcomes world opts 0 k (drop k contracts)"

text \<open>
  Answers to the request for a contract that is not there: a body with status 1 and an
  empty result, the rejection of a response with status code 404 (its message is the one
  axios gives it), a body with status 0 and the message NOTOK, and a body with status 0
  and no message.
\<close>

definition noSourceResponse :: axios_outcome where
  "noSourceResponse = AxiosResolved (ContractSourceResponse ''1'' ''OK'' [])"

definition status404 :: axios_outcome where
  "status404 = AxiosRejected ''Request failed with status code 404''"

definition notOkResponse :: axios_outcome where
  "notOkResponse = AxiosResolved (ContractSourceResponse ''0'' ''NOTOK'' [])"

definition noMessageResponse :: axios_outcome where
  "noMessageResponse = AxiosResolved (ContractSourceResponse ''0'' [] [])"

text \<open>
  Environments for the scenarios: a fetch that times out twice and then succeeds, one that
  answers ``not verified'', one that always times out; a world that gives the first to the
  entry at global index 1, the second to the entry at index 0 and the third to all others.
\<close>

definition fetchedStub :: "ContractEntry \<Rightarrow> FetchedContract" where
  "fetchedStub contract =
     \<lparr> FetchedContract.address = ContractEntry.address contract,
       FetchedContract.blockchain = ContractEntry.blockchain contract, chainId = ''1'',
       FetchedContract.contractName = contract_name contract,
       FetchedContract.protocol = ContractEntry.protocol contract,
       sourceCode = ''contract Token { }'', abi = None, fetchedAt = '''', sources = [] \<rparr>"

definition flakyFetch :: "ContractEntry \<Rightarrow> nat \<Rightarrow> fetch_outcome" where
  "flakyFetch contract attempt =
     (if attempt < 2 then Threw ''timeout of 15000ms exceeded''
      else Returned (fetchedStub contract))"

definition notVerifiedFetch :: "ContractEntry \<Rightarrow> nat \<Rightarrow> fetch_outcome" where
  "notVerifiedFetch contract attempt = Threw ''Contract source code not verified''"

definition timeoutFetch :: "ContractEntry \<Rightarrow> nat \<Rightarrow> fetch_outcome" where
  "timeoutFetch contract attempt = Threw ''timeout of 15000ms exceeded''"

definition testWorld :: "int \<Rightarrow> ContractEntry \<Rightarrow> nat \<Rightarrow> fetch_outcome" where
  "testWorld globalIndex =
     (if globalIndex = 0 then notVerifiedFetch
      else if globalIndex = 1 then flakyFetch
      else timeoutFetch)"

text \<open>The default options with batches of one entry, so that every entry is a batch.\<close>

definition oneByOne :: FetchOptions where
  "oneByOne = DEFAULT_FETCH_OPTIONS\<lparr>batchSize := 1\<rparr>"

definition testEntry :: ContractEntry where
  "testEntry =
     \<lparr> ContractEntry.address = ''0x1234567890123456789012345678901234567890'',
       ContractEntry.blockchain = ''ethereum'', contract_name = ''Token'',
       ContractEntry.protocol = ''test'' \<rparr>"

text \<open>
  Input files for the loader: two that parse (one record each) and, under every other
  name, a file that cannot be read.
\<close>

definition testFiles :: "string \<Rightarrow> string + RawEntry list" where
  "testFiles filePath =
     (if filePath = ''good.json''
      then Inr [\<lparr> raw_address = Some ''0x1234567890123456789012345678901234567890'',
                  raw_blockchain = Some ''Ethereum'', raw_contract_name = Some ''Token'',
                  raw_protocol = Some ''test'' \<rparr>]
      else if filePath = ''more.json''
      then Inr [\<lparr> raw_address = Some ''0x0987654321098765432109876543210987654321'',
                  raw_blockchain = Some ''bnb'', raw_contract_name = None,
                  raw_protocol = Some ''test'' \<rparr>]
      else Inl ''ENOENT: no such file or directory'')"

text \<open>
  The builders. The key of an edge is (source, target, kind); \<open>addedAddresses\<close> are the
  lower-cased addresses of all contracts passed to \<^verbatim>\<open>addContracts\<close> in a sequence of
  calls, and \<open>codeGraphOf\<close>, \<open>commGraphOf\<close> are the graphs \<^verbatim>\<open>build()\<close> returns after
  such a sequence on a new builder. The remaining predicates are the invariants of the two
  builders used in the proofs.
\<close>

definition edgeKeyOf :: "ContractEdge \<Rightarrow> string \<times> string \<times> RelationshipType" where
  "edgeKeyOf e = (ContractEdge.source e, ContractEdge.target e, relationshipType e)"

definition addedAddresses :: "FetchedContract list list \<Rightarrow> string set" where
  "addedAddresses calls = (\<lambda>c. toLowerCase (FetchedContract.address c)) ` set (concat calls)"

definition edgesWithin :: "string set \<Rightarrow> ContractEdge list \<Rightarrow> bool" where
  "edgesWithin A es =
     (distinct (map edgeKeyOf es) \<and> ContractEdge.source ` set es \<subseteq> A
      \<and> ContractEdge.target ` set es \<subseteq> A)"

definition indexedAddresses :: "(string \<times> string list) list \<Rightarrow> string set" where
  "indexedAddresses names = \<Union> (set ` snd ` set names)"

definition codeIndexWithin :: "string set \<Rightarrow> CodeGraphBuilder \<Rightarrow> bool" where
  "codeIndexWithin A this =
     (fst ` set (CodeGraphBuilder.nodes this) \<subseteq> A
      \<and> indexedAddresses (nameToAddresses this) \<subseteq> A)"

definition codeStable :: "string set \<Rightarrow> CodeGraphBuilder \<Rightarrow> CodeGraphBuilder \<Rightarrow> bool" where
  "codeStable A this0 this =
     (edgesWithin A (CodeGraphBuilder.edges this)
      \<and> CodeGraphBuilder.nodes this = CodeGraphBuilder.nodes this0
      \<and> nameToAddresses this = nameToAddresses this0
      \<and> CodeGraphBuilder.addressToContract this = CodeGraphBuilder.addressToContract this0)"

definition keyedBy :: "('n \<Rightarrow> string) \<Rightarrow> (string \<times> 'n) list \<Rightarrow> bool" where
  "keyedBy f m = (\<forall>(k, n) \<in> set m. k = f n)"

definition codeInv :: "string set \<Rightarrow> CodeGraphBuilder \<Rightarrow> bool" where
  "codeInv A this =
     (edgesWithin A (CodeGraphBuilder.edges this)
      \<and> fst ` set (CodeGraphBuilder.nodes this) = A
      \<and> distinct (map fst (CodeGraphBuilder.nodes this))
      \<and> keyedBy (\<lambda>n. toLowerCase (ContractNode.address n)) (CodeGraphBuilder.nodes this)
      \<and> indexedAddresses (nameToAddresses this) \<subseteq> A)"

definition lowerAddresses :: "FetchedContract list \<Rightarrow> string set" where
  "lowerAddresses contracts = (\<lambda>c. toLowerCase (FetchedContract.address c)) ` set contracts"

definition commEdgeKeyOf :: "CommunicationEdge \<Rightarrow> string \<times> string \<times> CommunicationPattern" where
  "commEdgeKeyOf e = (CommunicationEdge.source e, CommunicationEdge.target e, pattern e)"

definition commEdgesWithin :: "string set \<Rightarrow> CommunicationEdge list \<Rightarrow> bool" where
  "commEdgesWithin A es =
     (distinct (map commEdgeKeyOf es) \<and> CommunicationEdge.source ` set es \<subseteq> A
      \<and> CommunicationEdge.target ` set es \<subseteq> A)"

definition isReverseOf :: "CommunicationEdge \<Rightarrow> CommunicationEdge \<Rightarrow> bool" where
  "isReverseOf e e' =
     (CommunicationEdge.source e' = CommunicationEdge.target e
      \<and> CommunicationEdge.target e' = CommunicationEdge.source e)"

definition flagsAsAdded :: "CommunicationEdge list \<Rightarrow> bool" where
  "flagsAsAdded es =
     (\<forall>i < length es. bidirectional (es ! i) = list_ex (isReverseOf (es ! i)) (take i es))"

definition commStable ::
  "string set \<Rightarrow> CommunicationGraphBuilder \<Rightarrow> CommunicationGraphBuilder \<Rightarrow> bool" where
  "commStable A this0 this =
     (commEdgesWithin A (CommunicationGraphBuilder.edges this)
      \<and> flagsAsAdded (CommunicationGraphBuilder.edges this)
      \<and> CommunicationGraphBuilder.nodes this = CommunicationGraphBuilder.nodes this0
      \<and> CommunicationGraphBuilder.addressToContract this
          = CommunicationGraphBuilder.addressToContract this0)"

definition commInv :: "string set \<Rightarrow> CommunicationGraphBuilder \<Rightarrow> bool" where
  "commInv A this =
     (commEdgesWithin A (CommunicationGraphBuilder.edges this)
      \<and> flagsAsAdded (CommunicationGraphBuilder.edges this)
      \<and> fst ` set (CommunicationGraphBuilder.nodes this) = A
      \<and> distinct (map fst (CommunicationGraphBuilder.nodes this))
      \<and> keyedBy (\<lambda>n. toLowerCase (CommunicationNode.address n))
           (CommunicationGraphBuilder.nodes this))"

definition codeGraphOf :: "abiExtractor \<Rightarrow> string \<Rightarrow> FetchedContract list list \<Rightarrow> CodeGraph" where
  "codeGraphOf X now calls = code_build now (foldl (code_addContracts X) newCodeGraphBuilder calls)"

definition commGraphOf :: "string \<Rightarrow> FetchedContract list list \<Rightarrow> CommunicationGraph" where
  "commGraphOf now calls = comm_build now (foldl comm_addContracts newCommunicationGraphBuilder calls)"

definition noExtractor :: abiExtractor where
  "noExtractor =
     \<lparr> extractFunctionSignatures = (\<lambda>items. []), extractEventSignatures = (\<lambda>items. []),
       extractInheritance = (\<lambda>text. []), extractImports = (\<lambda>text. []),
       extractExternalCalls = (\<lambda>text. []), extractInterfacesFromSource = (\<lambda>text. []) \<rparr>"

text \<open>
  An edge reduced to its direction and its flag, and two contracts whose sources name each
  other (the first also names an address that belongs to no contract).
\<close>

definition flagOf :: "CommunicationEdge \<Rightarrow> string \<times> string \<times> bool" where
  "flagOf e = (CommunicationEdge.source e, CommunicationEdge.target e, bidirectional e)"

definition vaultContract :: FetchedContract where
  "vaultContract =
     \<lparr> FetchedContract.address = ''0x1111111111111111111111111111111111111111'',
       FetchedContract.blockchain = ''ethereum'', chainId = ''1'',
       FetchedContract.contractName = ''Vault'', FetchedContract.protocol = ''demo'',
       sourceCode = '''', abi = None, fetchedAt = '''',
       sources = [\<lparr> filename = ''Vault.sol'',
                    content = ''address pool = 0xABCDEFABCDEFABCDEFABCDEFABCDEFABCDEF0002; address other = 0x3333333333333333333333333333333333333333;'' \<rparr>] \<rparr>"

definition poolContract :: FetchedContract where
  "poolContract =
     \<lparr> FetchedContract.address = ''0xabcdefabcdefabcdefabcdefabcdefabcdef0002'',
       FetchedContract.blockchain = ''ethereum'', chainId = ''1'',
       FetchedContract.contractName = ''Pool'', FetchedContract.protocol = ''demo'',
       sourceCode = '''', abi = None, fetchedAt = '''',
       sources = [\<lparr> filename = ''Pool.sol'',
                    content = ''address vault = 0x1111111111111111111111111111111111111111;'' \<rparr>] \<rparr>"

section \<open>Properties of the contract list loader\<close>

lemma removeDuplicates_loop_append:
  "removeDuplicates_loop cs seen unique = unique @ removeDuplicates_loop cs seen []"
proof (induction cs arbitrary: seen unique)
  case Nil
  show ?case by simp
next
  case (Cons c cs)
  show ?case
    using Cons.IH [of "seen @ [entryKey c]" "unique @ [c]"] Cons.IH [of "seen @ [entryKey c]" "[c]"]
      Cons.IH [of seen unique]
    by simp
qed

lemma removeDuplicates_loop_Cons:
  "removeDuplicates_loop (c # cs) seen [] =
     (if entryKey c \<notin> set seen then c # removeDuplicates_loop cs (seen @ [entryKey c]) []
      else removeDuplicates_loop cs seen [])"
  using removeDuplicates_loop_append [of cs "seen @ [entryKey c]" "[c]"] by simp

lemma removeDuplicates_loop_length:
  "length (removeDuplicates_loop cs seen []) \<le> length cs"
  by (induction cs arbitrary: seen)
    (auto simp: removeDuplicates_loop_Cons le_SucI simp del: removeDuplicates_loop.simps(2))

lemma removeDuplicates_loop_subseq:
  "subseq (removeDuplicates_loop cs seen []) cs"
  by (induction cs arbitrary: seen)
    (auto simp: removeDuplicates_loop_Cons simp del: removeDuplicates_loop.simps(2))

lemma removeDuplicates_loop_fresh:
  "x \<in> set (removeDuplicates_loop cs seen []) \<Longrightarrow> entryKey x \<notin> set seen"
proof (induction cs arbitrary: seen)
  case Nil
  then show ?case by simp
next
  case (Cons c cs)
  show ?case
  proof (cases "entryKey c \<in> set seen")
    case True
    with Cons.prems have "x \<in> set (removeDuplicates_loop cs seen [])"
      by (simp add: removeDuplicates_loop_Cons del: removeDuplicates_loop.simps(2))
    then show ?thesis by (rule Cons.IH)
  next
    case False
    with Cons.prems have "x = c \<or> x \<in> set (removeDuplicates_loop cs (seen @ [entryKey c]) [])"
      by (simp add: removeDuplicates_loop_Cons del: removeDuplicates_loop.simps(2))
    then show ?thesis
    proof
      assume "x = c"
      with False show ?thesis by simp
    next
      assume "x \<in> set (removeDuplicates_loop cs (seen @ [entryKey c]) [])"
      then have "entryKey x \<notin> set (seen @ [entryKey c])" by (rule Cons.IH)
      then show ?thesis by simp
    qed
  qed
qed

lemma removeDuplicates_loop_distinct:
  "distinct (map entryKey (removeDuplicates_loop cs seen []))"
  by (induction cs arbitrary: seen)
    (auto simp: removeDuplicates_loop_Cons simp del: removeDuplicates_loop.simps(2)
       dest: removeDuplicates_loop_fresh)

lemma removeDuplicates_loop_find:
  "find (\<lambda>c. entryKey c = k) (removeDuplicates_loop cs seen []) =
     (if k \<in> set seen then None else find (\<lambda>c. entryKey c = k) cs)"
proof (induction cs arbitrary: seen)
  case Nil
  show ?case by simp
next
  case (Cons c cs)
  show ?case
    by (auto simp: removeDuplicates_loop_Cons Cons.IH simp del: removeDuplicates_loop.simps(2))
qed

lemma entryKey_pairKey: "pairKey c = pairKey c' \<Longrightarrow> entryKey c = entryKey c'"
  by (simp add: pairKey_def entryKey_def)

lemma entryKey_colonFree:
  assumes "colonFree c" and "colonFree c'"
  shows "entryKey c = entryKey c' \<longleftrightarrow> pairKey c = pairKey c'"
proof
  assume eq: "entryKey c = entryKey c'"
  have tw: "takeWhile (\<lambda>x. x \<noteq> CHR '':'') (entryKey d) = ContractEntry.blockchain d"
    if "colonFree d" for d
    using that by (simp add: entryKey_def colonFree_def takeWhile_append)
  have "ContractEntry.blockchain c = ContractEntry.blockchain c'"
    using tw [OF assms(1)] tw [OF assms(2)] eq by simp
  then show "pairKey c = pairKey c'"
    using eq by (simp add: entryKey_def pairKey_def)
next
  assume "pairKey c = pairKey c'"
  then show "entryKey c = entryKey c'" by (rule entryKey_pairKey)
qed

lemma find_cong_on:
  "(\<And>x. x \<in> set xs \<Longrightarrow> P x = Q x) \<Longrightarrow> find P xs = find Q xs"
  by (induction xs) auto

lemma distinct_map_coarser:
  assumes "distinct (map f xs)" and coarser: "\<And>x y. g x = g y \<Longrightarrow> f x = f y"
  shows "distinct (map g xs)"
  using assms(1)
proof (induction xs)
  case Nil
  show ?case by simp
next
  case (Cons x xs)
  have "g x \<notin> g ` set xs"
  proof
    assume "g x \<in> g ` set xs"
    then obtain y where y: "y \<in> set xs" "g x = g y" by blast
    from coarser [OF y(2)] y(1) have "f x \<in> f ` set xs" by (rule image_eqI)
    with Cons.prems show False by simp
  qed
  moreover have "distinct (map g xs)"
    using Cons.prems by (intro Cons.IH) simp
  ultimately show ?case by simp
qed

lemma removeDuplicates_subseq: "subseq (removeDuplicates cs) cs"
  by (simp add: removeDuplicates_def removeDuplicates_loop_subseq)

lemma removeDuplicates_loop_subset: "set (removeDuplicates_loop cs seen []) \<subseteq> set cs"
  by (induction cs arbitrary: seen)
    (auto simp: removeDuplicates_loop_Cons simp del: removeDuplicates_loop.simps(2))

lemma removeDuplicates_subset: "set (removeDuplicates cs) \<subseteq> set cs"
  by (simp add: removeDuplicates_def removeDuplicates_loop_subset)

lemma removeDuplicates_find_pair:
  assumes "list_all colonFree cs"
  shows "find (hasKey b a) (removeDuplicates cs) = find (hasKey b a) cs"
proof (cases "find (hasKey b a) cs")
  case None
  then have "\<not> (\<exists>x \<in> set cs. hasKey b a x)" by (simp add: find_None_iff)
  moreover have "set (removeDuplicates cs) \<subseteq> set cs"
    by (rule removeDuplicates_subset)
  ultimately have "\<not> (\<exists>x \<in> set (removeDuplicates cs). hasKey b a x)" by blast
  then have "find (hasKey b a) (removeDuplicates cs) = None" by (simp add: find_None_iff)
  with None show ?thesis by simp
next
  case (Some d)
  then have d: "d \<in> set cs" "hasKey b a d"
    by (auto simp: find_Some_iff)
  have cf: "colonFree x" if "x \<in> set cs" for x
    using assms that by (simp add: list_all_iff)
  have same: "hasKey b a x = (entryKey x = entryKey d)" if "x \<in> set cs" for x
    using entryKey_colonFree [OF cf [OF that] cf [OF d(1)]] d(2)
    by (auto simp: hasKey_def pairKey_def)
  have sub: "set (removeDuplicates cs) \<subseteq> set cs"
    by (rule removeDuplicates_subset)
  have "find (hasKey b a) (removeDuplicates cs) = find (\<lambda>c. entryKey c = entryKey d) (removeDuplicates cs)"
    using same sub by (intro find_cong_on) blast
  also have "\<dots> = find (\<lambda>c. entryKey c = entryKey d) cs"
    by (simp add: removeDuplicates_def removeDuplicates_loop_find)
  also have "\<dots> = find (hasKey b a) cs"
    using same by (intro find_cong_on) simp
  finally show ?thesis .
qed

lemma chain_keys_colonFree:
  "list_all (\<lambda>k. CHR '':'' \<notin> set k) (map fst CHAIN_ID_MAP @ objectPrototypeKeys)"
  by (simp add: CHAIN_ID_MAP_def objectPrototypeKeys_def)

lemma isValidContractEntry_colonFree:
  assumes "isValidContractEntry c"
  shows "colonFree c"
proof -
  from assms have "chainIdTruthy (ContractEntry.blockchain c)"
    by (simp add: isValidContractEntry_def split: if_splits)
  then have "ContractEntry.blockchain c \<in> set (map fst CHAIN_ID_MAP @ objectPrototypeKeys)"
    by (simp add: chainIdTruthy_def)
  with chain_keys_colonFree show ?thesis
    unfolding colonFree_def list_all_iff by blast
qed

text \<open>
  What \<^verbatim>\<open>removeDuplicates\<close> does with every list of contract entries. It
  returns a list that is no longer than its input, that is a subsequence of the input (the
  relative order of the kept entries is the input's), and in which no two entries have the
  same (blockchain, address) pair. The key it compares is the string
  \<^verbatim>\<open>blockchain:address\<close>: of every such key the first entry of the input is the one kept.
  Where no blockchain name of the list contains a colon, as for every entry that passes the
  loader's validation, that is the first entry of every (blockchain, address) pair.
\<close>

theorem removeDuplicates_first_of_each_key:
  "length (removeDuplicates contracts) \<le> length contracts
   \<and> subseq (removeDuplicates contracts) contracts
   \<and> distinct (map pairKey (removeDuplicates contracts))
   \<and> distinct (map entryKey (removeDuplicates contracts))
   \<and> find (\<lambda>c. entryKey c = k) (removeDuplicates contracts) = find (\<lambda>c. entryKey c = k) contracts
   \<and> (list_all colonFree contracts \<longrightarrow>
        find (hasKey b a) (removeDuplicates contracts) = find (hasKey b a) contracts)
   \<and> (list_all isValidContractEntry contracts \<longrightarrow> list_all colonFree contracts)"
proof -
  have d: "distinct (map entryKey (removeDuplicates contracts))"
    by (simp add: removeDuplicates_def removeDuplicates_loop_distinct)
  have "distinct (map pairKey (removeDuplicates contracts))"
    using d entryKey_pairKey by (rule distinct_map_coarser)
  moreover have "find (\<lambda>c. entryKey c = k) (removeDuplicates contracts) = find (\<lambda>c. entryKey c = k) contracts"
    by (simp add: removeDuplicates_def removeDuplicates_loop_find)
  moreover have "length (removeDuplicates contracts) \<le> length contracts"
    by (simp add: removeDuplicates_def removeDuplicates_loop_length)
  moreover have "list_all isValidContractEntry contracts \<longrightarrow> list_all colonFree contracts"
    by (auto simp: list_all_iff isValidContractEntry_colonFree)
  ultimately show ?thesis
    using d removeDuplicates_subseq [of contracts] removeDuplicates_find_pair [of contracts b a]
    by blast
qed

theorem removeDuplicates_first_of_each_key_witness:
  "list_all isValidContractEntry testEntries
   \<and> list_all colonFree testEntries
   \<and> find (hasKey ''ethereum'' ''0x1234567890123456789012345678901234567890'')
       (removeDuplicates testEntries) = Some (hd testEntries)
   \<and> length (removeDuplicates testEntries) = 2"
proof -
  have v: "list_all isValidContractEntry testEntries"
    by (simp add: testEntries_def isValidContractEntry_def isAddress_def isHexDigit_def
          toLowerCase_def toLowerChar_def chainIdTruthy_def CHAIN_ID_MAP_def)
  note T = removeDuplicates_first_of_each_key [of testEntries _ "''ethereum''"
      "''0x1234567890123456789012345678901234567890''"]
  from T v have c: "list_all colonFree testEntries" by blast
  with T have "find (hasKey ''ethereum'' ''0x1234567890123456789012345678901234567890'')
                 (removeDuplicates testEntries)
               = find (hasKey ''ethereum'' ''0x1234567890123456789012345678901234567890'') testEntries"
    by blast
  then have f: "find (hasKey ''ethereum'' ''0x1234567890123456789012345678901234567890'')
                  (removeDuplicates testEntries) = Some (hd testEntries)"
    by (simp add: testEntries_def hasKey_def)
  have "length (removeDuplicates testEntries) = 2"
    by (simp add: removeDuplicates_def testEntries_def entryKey_def)
  with v c f show ?thesis by simp
qed



section \<open>Properties of the ABI analysis and of the role detection\<close>

lemma set_foldl_setAdd: "set (foldl setAdd acc xs) = set acc \<union> set xs"
  by (induction xs arbitrary: acc) auto

lemma set_newSet: "set (newSet xs) = set xs"
  by (simp add: newSet_def set_foldl_setAdd)

lemma distinct_foldl_setAdd: "distinct acc \<Longrightarrow> distinct (foldl setAdd acc xs)"
  by (induction xs arbitrary: acc) auto

lemma distinct_newSet: "distinct (newSet xs)"
  by (simp add: newSet_def distinct_foldl_setAdd)

lemma isERC20_iff: "isERC20 items \<longleftrightarrow> set erc20Names \<subseteq> functionNameSet items"
  by (auto simp: isERC20_def erc20Names_def functionNameSet_def set_newSet Let_def image_iff)

lemma functionNameSet_removeFunction:
  "functionNameSet (removeFunction r items) = functionNameSet items - {r}"
  by (auto simp: functionNameSet_def removeFunction_def)

lemma functionNameSet_parameters:
  "functionNameSet (map (\<lambda>item. item\<lparr>inputs := ins item, outputs := outs item\<rparr>) items)
     = functionNameSet items"
  by (auto simp: functionNameSet_def)

text \<open>
  Claim C9. An ABI whose function names include every name of the fixed fungible-token list
  is detected by \<^verbatim>\<open>isERC20\<close>, and only such an ABI is; after the functions carrying any
  one required name are removed, the detection is false. The result is determined by the
  set of function names: two ABIs with the same function names get the same answer, and
  the parameters of the items play no part.
\<close>

theorem isERC20_by_function_names:
  "isERC20 items = (set erc20Names \<subseteq> functionNameSet items)
   \<and> (set erc20Names \<subseteq> functionNameSet items \<longrightarrow> isERC20 items)
   \<and> (r \<in> set erc20Names \<longrightarrow> \<not> isERC20 (removeFunction r items))
   \<and> (functionNameSet items = functionNameSet items' \<longrightarrow> isERC20 items = isERC20 items')
   \<and> isERC20 (map (\<lambda>item. item\<lparr>inputs := ins item, outputs := outs item\<rparr>) items) = isERC20 items"
  by (auto simp: isERC20_iff functionNameSet_removeFunction functionNameSet_parameters)

theorem isERC20_by_function_names_witness:
  "set erc20Names \<subseteq> functionNameSet erc20Abi
   \<and> isERC20 erc20Abi
   \<and> ''transfer'' \<in> set erc20Names
   \<and> \<not> isERC20 (removeFunction ''transfer'' erc20Abi)"
proof -
  have sup: "set erc20Names \<subseteq> functionNameSet erc20Abi"
    by (simp add: erc20Names_def functionNameSet_def erc20Abi_def fnItem_def)
  have req: "''transfer'' \<in> set erc20Names"
    by (simp add: erc20Names_def)
  note T = isERC20_by_function_names [of erc20Abi "''transfer''"]
  from T sup have "isERC20 erc20Abi" by blast
  moreover from T req have "\<not> isERC20 (removeFunction ''transfer'' erc20Abi)" by blast
  ultimately show ?thesis using sup req by simp
qed







text \<open>
  Claim C10. \<^verbatim>\<open>detectContractRole\<close> never answers \<open>router\<close>: a contract whose lower-cased
  name contains \<^verbatim>\<open>router\<close>, the only condition of the router rule, is already a token or
  a dex by the two rules before it.
\<close>

theorem detectContractRole_never_router:
  "detectContractRole contract \<noteq> Role_router
   \<and> (str_includes (toLowerCase (FetchedContract.contractName contract)) ''router''
        \<longrightarrow> detectContractRole contract = Role_token \<or> detectContractRole contract = Role_dex)"
  by (simp add: detectContractRole_def Let_def)

theorem detectContractRole_never_router_witness:
  "str_includes (toLowerCase (FetchedContract.contractName dexContract)) ''router''
   \<and> detectContractRole dexContract = Role_dex"
proof -
  have h: "str_includes (toLowerCase (FetchedContract.contractName dexContract)) ''router''"
    by (simp add: dexContract_def toLowerCase_def toLowerChar_def)
  have n: "detectContractRole dexContract \<noteq> Role_token"
    by (simp add: detectContractRole_def dexContract_def abiOrEmpty_def fnItem_def Let_def
          newSet_def hasERC20Functions_def has_def toLowerCase_def toLowerChar_def)
  from detectContractRole_never_router [of dexContract] h n
  have "detectContractRole dexContract = Role_dex" by blast
  with h show ?thesis by simp
qed


section \<open>Properties of the code graph builder\<close>

lemma code_hasEdge_filter:
  "code_hasEdge this src tgt rel
     \<longleftrightarrow> filter (edgeHasKey src tgt rel) (CodeGraphBuilder.edges this) \<noteq> []"
  by (auto simp: code_hasEdge_def edgeHasKey_def list_ex_iff filter_empty_conv)

lemma code_hasEdge_addEdge: "code_hasEdge (code_addEdge this src tgt rel md) src tgt rel"
  by (auto simp: code_addEdge_def code_hasEdge_def list_ex_iff)

lemma code_addEdge_twice:
  "code_addEdge (code_addEdge this src tgt rel md1) src tgt rel md2
     = code_addEdge this src tgt rel md1"
  using code_hasEdge_addEdge [of this src tgt rel md1]
  by (simp add: code_addEdge_def [of "code_addEdge this src tgt rel md1"])

lemma code_addEdge_filter:
  "filter (edgeHasKey src tgt rel) (CodeGraphBuilder.edges (code_addEdge this src tgt rel md))
     = (if code_hasEdge this src tgt rel
        then filter (edgeHasKey src tgt rel) (CodeGraphBuilder.edges this)
        else [\<lparr> ContractEdge.source = src, ContractEdge.target = tgt,
                relationshipType = rel, ContractEdge.metadata = md \<rparr>])"
  by (auto simp: code_addEdge_def code_hasEdge_filter edgeHasKey_def)

text \<open>
  Claim C4. Adding an edge twice with the same (source, target, relationship type) is
  adding it once: the second call leaves the builder as the first left it, whatever
  metadata it carries. A builder with at most one edge of that key has exactly one
  afterwards; if it had none, that edge carries the metadata of the first call, and if it
  had one, its edge list is unchanged.
\<close>

theorem code_addEdge_twice_is_once:
  "code_addEdge (code_addEdge this src tgt rel md1) src tgt rel md2
     = code_addEdge this src tgt rel md1
   \<and> (length (filter (edgeHasKey src tgt rel) (CodeGraphBuilder.edges this)) \<le> 1 \<longrightarrow>
        length (filter (edgeHasKey src tgt rel)
          (CodeGraphBuilder.edges (code_addEdge (code_addEdge this src tgt rel md1) src tgt rel md2)))
        = 1)
   \<and> (\<not> code_hasEdge this src tgt rel \<longrightarrow>
        filter (edgeHasKey src tgt rel)
          (CodeGraphBuilder.edges (code_addEdge (code_addEdge this src tgt rel md1) src tgt rel md2))
        = [\<lparr> ContractEdge.source = src, ContractEdge.target = tgt,
              relationshipType = rel, ContractEdge.metadata = md1 \<rparr>])
   \<and> (code_hasEdge this src tgt rel \<longrightarrow>
        CodeGraphBuilder.edges (code_addEdge (code_addEdge this src tgt rel md1) src tgt rel md2)
        = CodeGraphBuilder.edges this)"
proof -
  have twice: "code_addEdge (code_addEdge this src tgt rel md1) src tgt rel md2
     = code_addEdge this src tgt rel md1"
    by (rule code_addEdge_twice)
  have "length (filter (edgeHasKey src tgt rel) (CodeGraphBuilder.edges this)) \<le> 1 \<longrightarrow>
        length (filter (edgeHasKey src tgt rel)
          (CodeGraphBuilder.edges (code_addEdge this src tgt rel md1))) = 1"
    by (cases "filter (edgeHasKey src tgt rel) (CodeGraphBuilder.edges this)")
      (simp_all add: code_addEdge_filter code_hasEdge_filter)
  moreover have "code_hasEdge this src tgt rel \<longrightarrow>
        CodeGraphBuilder.edges (code_addEdge this src tgt rel md1) = CodeGraphBuilder.edges this"
    by (simp add: code_addEdge_def)
  ultimately show ?thesis
    unfolding twice by (simp add: code_addEdge_filter)
qed

theorem code_addEdge_twice_is_once_witness:
  "length (filter (edgeHasKey ''0xa'' ''0xb'' Rel_calls) (CodeGraphBuilder.edges newCodeGraphBuilder)) \<le> 1
   \<and> \<not> code_hasEdge newCodeGraphBuilder ''0xa'' ''0xb'' Rel_calls
   \<and> CodeGraphBuilder.edges
       (code_addEdge
          (code_addEdge newCodeGraphBuilder ''0xa'' ''0xb'' Rel_calls
             (Some \<lparr> functionName = Some ''transfer'', eventName = None, similarity = None \<rparr>))
          ''0xa'' ''0xb'' Rel_calls None)
     = [\<lparr> ContractEdge.source = ''0xa'', ContractEdge.target = ''0xb'', relationshipType = Rel_calls,
          ContractEdge.metadata =
            Some \<lparr> functionName = Some ''transfer'', eventName = None, similarity = None \<rparr> \<rparr>]"
proof -
  have h1: "length (filter (edgeHasKey ''0xa'' ''0xb'' Rel_calls)
              (CodeGraphBuilder.edges newCodeGraphBuilder)) \<le> 1"
    by (simp add: newCodeGraphBuilder_def)
  have h2: "\<not> code_hasEdge newCodeGraphBuilder ''0xa'' ''0xb'' Rel_calls"
    by (simp add: newCodeGraphBuilder_def code_hasEdge_def)
  have once: "code_addEdge
          (code_addEdge newCodeGraphBuilder ''0xa'' ''0xb'' Rel_calls
             (Some \<lparr> functionName = Some ''transfer'', eventName = None, similarity = None \<rparr>))
          ''0xa'' ''0xb'' Rel_calls None
        = code_addEdge newCodeGraphBuilder ''0xa'' ''0xb'' Rel_calls
             (Some \<lparr> functionName = Some ''transfer'', eventName = None, similarity = None \<rparr>)"
    using code_addEdge_twice_is_once [of newCodeGraphBuilder "''0xa''" "''0xb''" Rel_calls
        "Some \<lparr> functionName = Some ''transfer'', eventName = None, similarity = None \<rparr>" None]
    by blast
  have first: "CodeGraphBuilder.edges
       (code_addEdge newCodeGraphBuilder ''0xa'' ''0xb'' Rel_calls
          (Some \<lparr> functionName = Some ''transfer'', eventName = None, similarity = None \<rparr>))
     = [\<lparr> ContractEdge.source = ''0xa'', ContractEdge.target = ''0xb'', relationshipType = Rel_calls,
          ContractEdge.metadata =
            Some \<lparr> functionName = Some ''transfer'', eventName = None, similarity = None \<rparr> \<rparr>]"
    by (simp add: code_addEdge_def code_hasEdge_def newCodeGraphBuilder_def)
  show ?thesis
    unfolding once using h1 h2 first by blast
qed

section \<open>Properties of the loading of several files\<close>

lemma loadContractsFromFiles_loop_fails:
  assumes "filePath \<in> set filePaths" and "isl (loadContractsFromFile fs filePath)"
  shows "isl (loadContractsFromFiles_loop fs filePaths allContracts)"
  using assms
  by (induction filePaths arbitrary: allContracts) (auto split: sum.splits)

lemma loadContractsFromFiles_fails:
  "filePath \<in> set filePaths \<Longrightarrow> isl (loadContractsFromFile fs filePath)
     \<Longrightarrow> isl (loadContractsFromFiles fs filePaths)"
  by (simp add: loadContractsFromFiles_def loadContractsFromFiles_loop_fails)

lemma runAutomation_load_concat:
  "runAutomation_load fs files contracts =
     contracts @ concat (map (\<lambda>file. case loadContractsFromFile fs file of
                                        Inr loaded \<Rightarrow> loaded | Inl err \<Rightarrow> []) files)"
  by (induction files arbitrary: contracts) (auto split: sum.splits)

lemma load_good:
  "loadContractsFromFile testFiles ''good.json'' =
     Inr [\<lparr> ContractEntry.address = ''0x1234567890123456789012345678901234567890'',
            ContractEntry.blockchain = ''ethereum'', contract_name = ''Token'',
            ContractEntry.protocol = ''test'' \<rparr>]"
  by (simp add: loadContractsFromFile_def testFiles_def normalizeContractEntry_def orDefault_def
        trim_def isSpace_def toLowerCase_def toLowerChar_def isValidContractEntry_def
        isAddress_def isHexDigit_def chainIdTruthy_def CHAIN_ID_MAP_def)

lemma load_more:
  "loadContractsFromFile testFiles ''more.json'' =
     Inr [\<lparr> ContractEntry.address = ''0x0987654321098765432109876543210987654321'',
            ContractEntry.blockchain = ''bnb'', contract_name = ''Unknown'',
            ContractEntry.protocol = ''test'' \<rparr>]"
  by (simp add: loadContractsFromFile_def testFiles_def normalizeContractEntry_def orDefault_def
        trim_def isSpace_def toLowerCase_def toLowerChar_def isValidContractEntry_def
        isAddress_def isHexDigit_def chainIdTruthy_def CHAIN_ID_MAP_def)

lemma load_missing:
  "loadContractsFromFile testFiles ''missing.json'' =
     Inl ''Failed to load contracts from missing.json: ENOENT: no such file or directory''"
  by (simp add: loadContractsFromFile_def testFiles_def)

text \<open>
  Claim C3 says that a file that fails to load does not keep the entries of the other
  files from being returned. \<^verbatim>\<open>loadContractsFromFiles\<close> does not do that: with a
  readable file, a missing file and another readable file it throws the error of the
  missing one and returns no entry. The loading loop of \<^verbatim>\<open>runAutomation\<close>, given the
  same files, returns the entries of both readable files.
\<close>

theorem loadContractsFromFiles_stops_at_failing_file:
  "loadContractsFromFiles testFiles [''good.json'', ''missing.json'', ''more.json'']
     = Inl ''Failed to load contracts from missing.json: ENOENT: no such file or directory''
   \<and> runAutomation_load testFiles [''good.json'', ''missing.json'', ''more.json''] []
     = [\<lparr> ContractEntry.address = ''0x1234567890123456789012345678901234567890'',
          ContractEntry.blockchain = ''ethereum'', contract_name = ''Token'',
          ContractEntry.protocol = ''test'' \<rparr>,
        \<lparr> ContractEntry.address = ''0x0987654321098765432109876543210987654321'',
          ContractEntry.blockchain = ''bnb'', contract_name = ''Unknown'',
          ContractEntry.protocol = ''test'' \<rparr>]"
  by (simp add: loadContractsFromFiles_def load_good load_more load_missing)


section \<open>Properties of the batch contract fetcher\<close>

declare fetchContractWithRetry_loop.simps [simp del]

lemma backoffLog_step:
  "a < k \<Longrightarrow> backoffLog opts c a k
     = [FetchCall c, Delay (delayBetweenRequests opts * 2 ^ a)] @ backoffLog opts c (Suc a) k"
  by (simp add: backoffLog_def upt_conv_Cons)

lemma backoffLog_empty: "backoffLog opts c k k = []"
  by (simp add: backoffLog_def)

lemma loop_transient_step:
  assumes "transientAt fc c a" and "int a < maxRetries opts - 1"
  shows "fetchContractWithRetry_loop opts fc c a le log
     = fetchContractWithRetry_loop opts fc c (Suc a)
         (case fc c a of Threw m \<Rightarrow> Some m | Returned v \<Rightarrow> None)
         (log @ [FetchCall c, Delay (delayBetweenRequests opts * 2 ^ a)])"
  using assms
  by (subst fetchContractWithRetry_loop.simps)
     (auto simp: transientAt_def stopsRetries_def split: fetch_outcome.splits)

lemma loop_success:
  assumes "int k < maxRetries opts" and "a \<le> k" and "list_all (transientAt fc c) [a..<k]"
    and "fc c k = Returned v"
  shows "fetchContractWithRetry_loop opts fc c a le log
     = (Fetched v, log @ backoffLog opts c a k @ [FetchCall c])"
  using assms(2,3)
proof (induction "k - a" arbitrary: a le log)
  case 0
  then have "a = k" by simp
  then show ?case
    using assms(1,4) by (subst fetchContractWithRetry_loop.simps) (simp add: backoffLog_empty)
next
  case (Suc n)
  then have lt: "a < k" by simp
  with Suc.prems have t: "transientAt fc c a" and rest: "list_all (transientAt fc c) [Suc a..<k]"
    by (simp_all add: upt_conv_Cons)
  have "int a < maxRetries opts - 1" using lt assms(1) by simp
  note step = loop_transient_step [OF t this]
  have "n = k - Suc a" using Suc.hyps(2) by simp
  from Suc.hyps(1) [OF this _ rest] lt
  show ?case by (simp add: step backoffLog_step)
qed

lemma loop_terminal:
  assumes "int k < maxRetries opts" and "a \<le> k" and "list_all (transientAt fc c) [a..<k]"
    and "fc c k = Threw m" and "stopsRetries m"
  shows "fetchContractWithRetry_loop opts fc c a le log
     = (Raised (Some m), log @ backoffLog opts c a k @ [FetchCall c])"
  using assms(2,3)
proof (induction "k - a" arbitrary: a le log)
  case 0
  then have "a = k" by simp
  then show ?case
    using assms(1,4,5)
    by (subst fetchContractWithRetry_loop.simps) (simp add: backoffLog_empty stopsRetries_def)
next
  case (Suc n)
  then have lt: "a < k" by simp
  with Suc.prems have t: "transientAt fc c a" and rest: "list_all (transientAt fc c) [Suc a..<k]"
    by (simp_all add: upt_conv_Cons)
  have "int a < maxRetries opts - 1" using lt assms(1) by simp
  note step = loop_transient_step [OF t this]
  have "n = k - Suc a" using Suc.hyps(2) by simp
  from Suc.hyps(1) [OF this _ rest] lt
  show ?case by (simp add: step backoffLog_step)
qed

lemma loop_exhausted:
  assumes "maxRetries opts = int (Suc n)" and "a \<le> n" and "list_all (transientAt fc c) [a..<n]"
    and "fc c n = Threw m" and "\<not> stopsRetries m"
  shows "fetchContractWithRetry_loop opts fc c a le log
     = (Raised (Some m), log @ backoffLog opts c a n @ [FetchCall c])"
  using assms(2,3)
proof (induction "n - a" arbitrary: a le log)
  case 0
  then have "a = n" by simp
  have last: "fetchContractWithRetry_loop opts fc c n le log
     = fetchContractWithRetry_loop opts fc c (Suc n) (Some m) (log @ [FetchCall c])"
    using assms(1,4,5)
    by (subst fetchContractWithRetry_loop.simps) (simp add: stopsRetries_def)
  have "fetchContractWithRetry_loop opts fc c (Suc n) (Some m) (log @ [FetchCall c])
     = (Raised (Some m), log @ [FetchCall c])"
    using assms(1) by (subst fetchContractWithRetry_loop.simps) simp
  with last \<open>a = n\<close> show ?case by (simp add: backoffLog_empty)
next
  case (Suc d)
  then have lt: "a < n" by simp
  with Suc.prems have t: "transientAt fc c a" and rest: "list_all (transientAt fc c) [Suc a..<n]"
    by (simp_all add: upt_conv_Cons)
  have "int a < maxRetries opts - 1" using lt assms(1) by simp
  note step = loop_transient_step [OF t this]
  have "d = n - Suc a" using Suc.hyps(2) by simp
  from Suc.hyps(1) [OF this _ rest] lt
  show ?case by (simp add: step backoffLog_step)
qed

lemma loop_no_attempt:
  "maxRetries opts \<le> 0 \<Longrightarrow> fetchContractWithRetry opts fc c log = (Raised None, log)"
  unfolding fetchContractWithRetry_def
  by (subst fetchContractWithRetry_loop.simps) simp

lemma loop_log:
  "fetchContractWithRetry_loop opts fc c a le log
     = (fst (fetchContractWithRetry_loop opts fc c a le []),
        log @ snd (fetchContractWithRetry_loop opts fc c a le []))"
proof (induction "nat (maxRetries opts - int a)" arbitrary: a le log)
  case 0
  then have "\<not> int a < maxRetries opts" by simp
  then show ?case
    by (simp add: fetchContractWithRetry_loop.simps [of opts fc c a])
next
  case (Suc n)
  then have lt: "int a < maxRetries opts" by simp
  have n: "n = nat (maxRetries opts - int (Suc a))" using Suc.hyps(2) by simp
  show ?case
  proof (cases "fc c a")
    case (Returned v)
    with lt show ?thesis
      by (simp add: fetchContractWithRetry_loop.simps [of opts fc c a])
  next
    case (Threw m)
    show ?thesis
    proof (cases "str_includes m ''not found'' \<or> str_includes m ''not verified''")
      case True
      with lt Threw show ?thesis
        by (simp add: fetchContractWithRetry_loop.simps [of opts fc c a])
    next
      case False
      define X where "X = (if int a < maxRetries opts - 1
                           then [FetchCall c, Delay (delayBetweenRequests opts * 2 ^ a)]
                           else [FetchCall c])"
      have A: "fetchContractWithRetry_loop opts fc c a le lg
            = fetchContractWithRetry_loop opts fc c (Suc a) (Some m) (lg @ X)" for lg
        using lt Threw False by (subst fetchContractWithRetry_loop.simps) (simp add: X_def)
      show ?thesis
        unfolding A
        using Suc.hyps(1) [OF n, of "Some m" "log @ X"] Suc.hyps(1) [OF n, of "Some m" "[] @ X"]
        by simp
    qed
  qed
qed

lemma fetchContractWithRetry_log:
  "fetchContractWithRetry opts fc c log
     = (retryOutcome opts fc c, log @ snd (fetchContractWithRetry opts fc c []))"
  unfolding fetchContractWithRetry_def retryOutcome_def
  by (rule loop_log)

lemma options_pushFailed [simp]: "options (pushFailed this c) = options this"
  by (simp add: pushFailed_def)

lemma onProgress_pushFailed [simp]: "onProgress (pushFailed this c) = onProgress this"
  by (simp add: pushFailed_def)

lemma quietCallback_pushFailed [simp]: "quietCallback (pushFailed this c) = quietCallback this"
  by (simp add: quietCallback_def)

lemma withFailed_pushFailed:
  "withFailed (pushFailed this c) addrs = withFailed this (ContractEntry.address c # addrs)"
  by (simp add: withFailed_def pushFailed_def)

lemma withFailed_Nil [simp]: "withFailed this [] = this"
  by (simp add: withFailed_def)

lemma quiet_notified:
  "quietCallback this \<Longrightarrow>
     (case onProgress this of None \<Rightarrow> None | Some callback \<Rightarrow> callback (status this) contract) = None"
  by (simp add: quietCallback_def split: option.splits)

lemma processBatch_loop_closed:
  assumes "quietCallback this"
  shows "fst (processBatch_loop world start batch i this results log)
           = results @ fetchedOf (batchOutcomes world (options this) start i batch)
         \<and> fst (snd (processBatch_loop world start batch i this results log))
           = withFailed this (failedOf (batchOutcomes world (options this) start i batch))"
  using assms
proof (induction batch arbitrary: i this results log)
  case Nil
  show ?case by (simp add: batchOutcomes_def fetchedOf_def failedOf_def)
next
  case (Cons c rest)
  note q = quiet_notified [OF Cons.prems, of c]
  show ?case
  proof (cases "retryOutcome (options this) (world (start + int i)) c")
    case (Fetched v)
    then show ?thesis
      using Cons.IH [OF Cons.prems] q
      by (simp add: Let_def fetchContractWithRetry_log [of _ _ _ log] batchOutcomes_def
            fetchedOf_def failedOf_def)
  next
    case (Raised e)
    have q': "quietCallback (pushFailed this c)" using Cons.prems by simp
    from Raised show ?thesis
      using Cons.IH [OF q'] q
      by (simp add: Let_def fetchContractWithRetry_log [of _ _ _ log] batchOutcomes_def
            fetchedOf_def failedOf_def withFailed_pushFailed)
  qed
qed

lemma processBatch_loop_count:
  "length (fst (processBatch_loop world start batch i this results log))
     + length (failedContracts (status (fst (snd (processBatch_loop world start batch i this results log)))))
   = length results + length (failedContracts (status this)) + length batch"
proof (induction batch arbitrary: i this results log)
  case Nil
  show ?case by simp
next
  case (Cons c rest)
  show ?case
    by (simp add: Let_def Cons.IH pushFailed_def split: option.splits prod.splits retry_result.splits)
qed

lemma processBatch_single:
  assumes "quietCallback this"
  shows "processBatch world this [c] start log =
     (case fetchContractWithRetry (options this) (world start) c log of
        (Fetched fetched, log1) \<Rightarrow> ([fetched], this, log1)
      | (Raised error, log1) \<Rightarrow> ([], pushFailed this c, log1))"
  using quiet_notified [OF assms, of c]
  by (simp add: processBatch_def Let_def split: prod.splits retry_result.splits)

lemma retry_policy:
  "(int k < maxRetries opts \<and> list_all (transientAt fc c) [0..<k] \<and> fc c k = Threw m
      \<and> stopsRetries m \<longrightarrow>
      fetchContractWithRetry opts fc c log
        = (Raised (Some m), log @ backoffLog opts c 0 k @ [FetchCall c]))
   \<and> (maxRetries opts = int (Suc n) \<and> list_all (transientAt fc c) [0..<n] \<and> fc c n = Threw m'
      \<and> \<not> stopsRetries m' \<longrightarrow>
      fetchContractWithRetry opts fc c log
        = (Raised (Some m'), log @ backoffLog opts c 0 n @ [FetchCall c]))
   \<and> (int k < maxRetries opts \<and> list_all (transientAt fc c) [0..<k] \<and> fc c k = Returned v \<longrightarrow>
      fetchContractWithRetry opts fc c log
        = (Fetched v, log @ backoffLog opts c 0 k @ [FetchCall c]))
   \<and> (maxRetries opts \<le> 0 \<longrightarrow> fetchContractWithRetry opts fc c log = (Raised None, log))"
  using loop_terminal [of k opts 0 fc c m None log] loop_exhausted [of opts n 0 fc c m' None log]
    loop_success [of k opts 0 fc c v None log] loop_no_attempt [of opts fc c log]
  by (simp add: fetchContractWithRetry_def)

text \<open>
  The retry loop, for every entry, every environment and every retry limit, in terms of
  the loop's own test of the message. If, after \<open>k\<close> retried failures with \<open>k\<close> below the
  limit, an attempt throws a message that contains \<^verbatim>\<open>not found\<close> or \<^verbatim>\<open>not verified\<close>,
  that error is thrown at once: the log ends with that call. If all \<open>n + 1\<close> attempts that
  the limit allows throw other messages, the error of the last attempt is thrown. If, after
  \<open>k\<close> retried failures, an attempt succeeds, its value is returned. In each case every
  failed attempt that is retried is followed in the log by the delay
  \<open>delayBetweenRequests * 2 ^ attempt\<close> and nothing else. With a limit of zero or less no
  attempt is made. In \<^verbatim>\<open>processBatch\<close> the entry that succeeds after retried failures
  is returned and the fetcher, with its list of failed addresses, is unchanged; the entry
  whose message passes the test adds its one address to that list.
\<close>

theorem fetchContractWithRetry_policy:
  "(int k < maxRetries opts \<and> list_all (transientAt fc c) [0..<k] \<and> fc c k = Threw m
      \<and> stopsRetries m \<longrightarrow>
      fetchContractWithRetry opts fc c log
        = (Raised (Some m), log @ backoffLog opts c 0 k @ [FetchCall c]))
   \<and> (maxRetries opts = int (Suc n) \<and> list_all (transientAt fc c) [0..<n] \<and> fc c n = Threw m'
      \<and> \<not> stopsRetries m' \<longrightarrow>
      fetchContractWithRetry opts fc c log
        = (Raised (Some m'), log @ backoffLog opts c 0 n @ [FetchCall c]))
   \<and> (int k < maxRetries opts \<and> list_all (transientAt fc c) [0..<k] \<and> fc c k = Returned v \<longrightarrow>
      fetchContractWithRetry opts fc c log
        = (Fetched v, log @ backoffLog opts c 0 k @ [FetchCall c]))
   \<and> (maxRetries opts \<le> 0 \<longrightarrow> fetchContractWithRetry opts fc c log = (Raised None, log))
   \<and> (quietCallback this \<and> int k < maxRetries (options this)
      \<and> list_all (transientAt (world start) c) [0..<k] \<and> world start c k = Returned v \<longrightarrow>
      processBatch world this [c] start log
        = ([v], this, log @ backoffLog (options this) c 0 k @ [FetchCall c]))
   \<and> (quietCallback this \<and> int k < maxRetries (options this)
      \<and> list_all (transientAt (world start) c) [0..<k] \<and> world start c k = Threw m
      \<and> stopsRetries m \<longrightarrow>
      processBatch world this [c] start log
        = ([], pushFailed this c, log @ backoffLog (options this) c 0 k @ [FetchCall c]))"
proof -
  note A = retry_policy [of k opts fc c m log n m' v]
  note B = retry_policy [of k "options this" "world start" c m log n m' v]
  have "quietCallback this \<and> int k < maxRetries (options this)
      \<and> list_all (transientAt (world start) c) [0..<k] \<and> world start c k = Returned v \<longrightarrow>
      processBatch world this [c] start log
        = ([v], this, log @ backoffLog (options this) c 0 k @ [FetchCall c])"
    using B by (auto simp: processBatch_single)
  moreover have "quietCallback this \<and> int k < maxRetries (options this)
      \<and> list_all (transientAt (world start) c) [0..<k] \<and> world start c k = Threw m
      \<and> stopsRetries m \<longrightarrow>
      processBatch world this [c] start log
        = ([], pushFailed this c, log @ backoffLog (options this) c 0 k @ [FetchCall c])"
    using B by (auto simp: processBatch_single)
  ultimately show ?thesis using A by blast
qed

theorem fetchContractWithRetry_policy_witness:
  "int 2 < maxRetries DEFAULT_FETCH_OPTIONS
   \<and> list_all (transientAt flakyFetch testEntry) [0..<2]
   \<and> flakyFetch testEntry 2 = Returned (fetchedStub testEntry)
   \<and> fetchContractWithRetry DEFAULT_FETCH_OPTIONS flakyFetch testEntry []
       = (Fetched (fetchedStub testEntry),
          [FetchCall testEntry, Delay 200, FetchCall testEntry, Delay 400, FetchCall testEntry])
   \<and> quietCallback (newBatchContractFetcher DEFAULT_FETCH_OPTIONS [])
   \<and> processBatch testWorld (newBatchContractFetcher DEFAULT_FETCH_OPTIONS []) [testEntry] 1 []
       = ([fetchedStub testEntry], newBatchContractFetcher DEFAULT_FETCH_OPTIONS [],
          [FetchCall testEntry, Delay 200, FetchCall testEntry, Delay 400, FetchCall testEntry])"
proof -
  have h1: "int 2 < maxRetries DEFAULT_FETCH_OPTIONS"
    by (simp add: DEFAULT_FETCH_OPTIONS_def)
  have h2: "list_all (transientAt flakyFetch testEntry) [0..<2]"
    by (simp add: transientAt_def flakyFetch_def stopsRetries_def upt_conv_Cons)
  have h3: "flakyFetch testEntry 2 = Returned (fetchedStub testEntry)"
    by (simp add: flakyFetch_def)
  have h4: "quietCallback (newBatchContractFetcher DEFAULT_FETCH_OPTIONS [])"
    by (simp add: quietCallback_def newBatchContractFetcher_def)
  have o: "options (newBatchContractFetcher DEFAULT_FETCH_OPTIONS []) = DEFAULT_FETCH_OPTIONS"
    by (simp add: newBatchContractFetcher_def)
  have w: "testWorld 1 = flakyFetch"
    by (simp add: testWorld_def)
  have b: "backoffLog DEFAULT_FETCH_OPTIONS testEntry 0 2
             = [FetchCall testEntry, Delay 200, FetchCall testEntry, Delay 400]"
    by (simp add: backoffLog_def DEFAULT_FETCH_OPTIONS_def upt_conv_Cons)
  note T = fetchContractWithRetry_policy [of 2 DEFAULT_FETCH_OPTIONS flakyFetch testEntry _ "[]" _ _
      "fetchedStub testEntry" "newBatchContractFetcher DEFAULT_FETCH_OPTIONS []" testWorld 1]
  from T h1 h2 h3
  have r: "fetchContractWithRetry DEFAULT_FETCH_OPTIONS flakyFetch testEntry []
       = (Fetched (fetchedStub testEntry),
          [] @ backoffLog DEFAULT_FETCH_OPTIONS testEntry 0 2 @ [FetchCall testEntry])"
    by blast
  from T h1 h2 h3 h4
  have p: "processBatch testWorld (newBatchContractFetcher DEFAULT_FETCH_OPTIONS []) [testEntry] 1 []
       = ([fetchedStub testEntry], newBatchContractFetcher DEFAULT_FETCH_OPTIONS [],
          [] @ backoffLog DEFAULT_FETCH_OPTIONS testEntry 0 2 @ [FetchCall testEntry])"
    unfolding o w by blast
  show ?thesis
    using h1 h2 h3 h4 r p unfolding b by simp
qed

text \<open>
  Claim C1. A failure whose message indicates that the contract was not found or not
  verified is to be raised at once, with no further attempt; the comment above the test in
  the loop says the same of a 404. The loop decides by searching the message for the texts
  \<^verbatim>\<open>not found\<close> and \<^verbatim>\<open>not verified\<close>, and these failures of a contract that is not
  there do not contain them: the error \<^verbatim>\<open>No source code found\<close> that \<^verbatim>\<open>fetchContract\<close>
  itself throws for a response without a source payload, the message of a response with
  status code 404, and the message NOTOK of the server. With the default options each of
  them is attempted three times, with the delays 200 and 400 in between, before the error
  is thrown. The default message of \<^verbatim>\<open>fetchContract\<close>, for a failure response that has
  no message, does contain \<^verbatim>\<open>not found\<close> and is thrown after the first attempt.
\<close>

theorem fetchContractWithRetry_retries_missing_contract:
  "fetchContract assemble noSourceResponse testEntry = Threw ''No source code found''
   \<and> fetchContractWithRetry DEFAULT_FETCH_OPTIONS
         (\<lambda>contract attempt. fetchContract assemble noSourceResponse contract) testEntry []
       = (Raised (Some ''No source code found''),
          [FetchCall testEntry, Delay 200, FetchCall testEntry, Delay 400, FetchCall testEntry])
   \<and> fetchContractWithRetry DEFAULT_FETCH_OPTIONS
         (\<lambda>contract attempt. fetchContract assemble status404 contract) testEntry []
       = (Raised (Some ''Request failed with status code 404''),
          [FetchCall testEntry, Delay 200, FetchCall testEntry, Delay 400, FetchCall testEntry])
   \<and> fetchContractWithRetry DEFAULT_FETCH_OPTIONS
         (\<lambda>contract attempt. fetchContract assemble notOkResponse contract) testEntry []
       = (Raised (Some ''NOTOK''),
          [FetchCall testEntry, Delay 200, FetchCall testEntry, Delay 400, FetchCall testEntry])
   \<and> fetchContractWithRetry DEFAULT_FETCH_OPTIONS
         (\<lambda>contract attempt. fetchContract assemble noMessageResponse contract) testEntry []
       = (Raised (Some ''Contract not found or not verified''), [FetchCall testEntry])"
proof -
  have chain: "chainIdTruthy (ContractEntry.blockchain testEntry)"
    by (simp add: chainIdTruthy_def CHAIN_ID_MAP_def testEntry_def)
  have noSource: "fetchContract assemble noSourceResponse testEntry = Threw ''No source code found''"
    using chain by (simp add: fetchContract_def noSourceResponse_def)
  have notFound: "fetchContract assemble status404 testEntry
                    = Threw ''Request failed with status code 404''"
    using chain by (simp add: fetchContract_def status404_def)
  have notOk: "fetchContract assemble notOkResponse testEntry = Threw ''NOTOK''"
    using chain by (simp add: fetchContract_def notOkResponse_def)
  have noMessage: "fetchContract assemble noMessageResponse testEntry
                     = Threw ''Contract not found or not verified''"
    using chain by (simp add: fetchContract_def noMessageResponse_def)
  have "fetchContractWithRetry DEFAULT_FETCH_OPTIONS
         (\<lambda>contract attempt. fetchContract assemble noSourceResponse contract) testEntry []
       = (Raised (Some ''No source code found''),
          [FetchCall testEntry, Delay 200, FetchCall testEntry, Delay 400, FetchCall testEntry])"
    by (simp add: fetchContractWithRetry_def fetchContractWithRetry_loop.simps
          DEFAULT_FETCH_OPTIONS_def noSource)
  moreover have "fetchContractWithRetry DEFAULT_FETCH_OPTIONS
         (\<lambda>contract attempt. fetchContract assemble status404 contract) testEntry []
       = (Raised (Some ''Request failed with status code 404''),
          [FetchCall testEntry, Delay 200, FetchCall testEntry, Delay 400, FetchCall testEntry])"
    by (simp add: fetchContractWithRetry_def fetchContractWithRetry_loop.simps
          DEFAULT_FETCH_OPTIONS_def notFound)
  moreover have "fetchContractWithRetry DEFAULT_FETCH_OPTIONS
         (\<lambda>contract attempt. fetchContract assemble notOkResponse contract) testEntry []
       = (Raised (Some ''NOTOK''),
          [FetchCall testEntry, Delay 200, FetchCall testEntry, Delay 400, FetchCall testEntry])"
    by (simp add: fetchContractWithRetry_def fetchContractWithRetry_loop.simps
          DEFAULT_FETCH_OPTIONS_def notOk)
  moreover have "fetchContractWithRetry DEFAULT_FETCH_OPTIONS
         (\<lambda>contract attempt. fetchContract assemble noMessageResponse contract) testEntry []
       = (Raised (Some ''Contract not found or not verified''), [FetchCall testEntry])"
    by (simp add: fetchContractWithRetry_def fetchContractWithRetry_loop.simps
          DEFAULT_FETCH_OPTIONS_def noMessage)
  ultimately show ?thesis using noSource by simp
qed

lemma in_fetchedOf:
  "(c, Fetched v) \<in> set outcomes \<Longrightarrow> v \<in> set (fetchedOf outcomes)"
  by (force simp: fetchedOf_def)

lemma in_failedOf:
  "(c, Raised e) \<in> set outcomes \<Longrightarrow> ContractEntry.address c \<in> set (failedOf outcomes)"
  by (force simp: failedOf_def)

lemma in_batchOutcomes:
  "i < length batch \<Longrightarrow>
     (batch ! i, retryOutcome opts (world (start + int i)) (batch ! i))
       \<in> set (batchOutcomes world opts start 0 batch)"
proof -
  assume "i < length batch"
  then have "(i, batch ! i) \<in> set (enumerate 0 batch)"
    by (simp add: in_set_enumerate_eq)
  then have "(\<lambda>(j, contract). (contract, retryOutcome opts (world (start + int j)) contract)) (i, batch ! i)
               \<in> (\<lambda>(j, contract). (contract, retryOutcome opts (world (start + int j)) contract)) `
                   set (enumerate 0 batch)"
    by (rule imageI)
  then show ?thesis
    by (simp add: batchOutcomes_def)
qed

lemma length_fetched_failed:
  "length (fetchedOf outcomes) + length (failedOf outcomes) = length outcomes"
  by (induction outcomes) (auto simp: fetchedOf_def failedOf_def split: retry_result.splits)

text \<open>
  A whole run. With a positive batch size and a start index that is not negative the loop
  of \<^verbatim>\<open>fetchAll\<close> goes through the batches one after the other and returns.
\<close>

lemma slice_batch:
  assumes "0 \<le> i" and "i < int (length xs)" and "0 < b"
  shows "slice xs i (i + b) = take (nat b) (drop (nat i) xs)"
proof -
  have n: "nat (min (i + b) (int (length xs)) - i) = min (nat b) (length (drop (nat i) xs))"
    using assms by (simp add: min_def) linarith
  have "slice xs i (i + b) = take (nat (min (i + b) (int (length xs)) - i)) (drop (nat i) xs)"
    using assms by (simp add: slice_def Let_def min_def [of i])
  also have "\<dots> = take (min (nat b) (length (drop (nat i) xs))) (drop (nat i) xs)"
    unfolding n ..
  also have "\<dots> = take (nat b) (drop (nat i) xs)"
    by (simp add: min_def)
  finally show ?thesis .
qed

lemma processBatch_loop_frame:
  "options (fst (snd (processBatch_loop world start batch i this results log))) = options this
   \<and> onProgress (fst (snd (processBatch_loop world start batch i this results log))) = onProgress this"
proof (induction batch arbitrary: i this results log)
  case Nil
  show ?case by simp
next
  case (Cons c rest)
  show ?case
    by (simp add: Let_def Cons.IH split: option.splits prod.splits retry_result.splits)
qed

lemma batchOutcomes_shift:
  "batchOutcomes world opts (int k) i batch = batchOutcomes world opts 0 (k + i) batch"
proof -
  have "map (\<lambda>(j, contract). (contract, retryOutcome opts (world (int k + int j)) contract)) (enumerate i batch)
      = map (\<lambda>(j, contract). (contract, retryOutcome opts (world (0 + int j)) contract)) (enumerate (k + i) batch)"
    by (induction batch arbitrary: i) (simp_all add: add.commute add.left_commute)
  then show ?thesis by (simp add: batchOutcomes_def)
qed

lemma batchOutcomes_append:
  "batchOutcomes world opts s i (xs @ ys)
     = batchOutcomes world opts s i xs @ batchOutcomes world opts s (i + length xs) ys"
  by (simp add: batchOutcomes_def enumerate_append_eq)

lemma fetchedOf_append: "fetchedOf (xs @ ys) = fetchedOf xs @ fetchedOf ys"
  by (simp add: fetchedOf_def)

lemma failedOf_append: "failedOf (xs @ ys) = failedOf xs @ failedOf ys"
  by (simp add: failedOf_def)


lemma runOutcomes_split:
  "runOutcomes world opts k contracts
     = batchOutcomes world opts (int k) 0 (take b (drop k contracts))
       @ runOutcomes world opts (k + b) contracts"
proof -
  let ?batch = "take b (drop k contracts)"
  have d: "drop k contracts = ?batch @ drop (k + b) contracts"
    by (metis append_take_drop_id drop_drop add.commute)
  have "runOutcomes world opts k contracts
      = batchOutcomes world opts 0 k ?batch
        @ batchOutcomes world opts 0 (k + length ?batch) (drop (k + b) contracts)"
    unfolding runOutcomes_def by (subst d) (rule batchOutcomes_append)
  also have "batchOutcomes world opts 0 (k + length ?batch) (drop (k + b) contracts)
      = runOutcomes world opts (k + b) contracts"
  proof (cases "b \<le> length (drop k contracts)")
    case True
    then have "length ?batch = b" by simp
    then show ?thesis by (simp add: runOutcomes_def)
  next
    case False
    then have "drop (k + b) contracts = []" by simp
    then show ?thesis by (simp add: runOutcomes_def batchOutcomes_def)
  qed
  also have "batchOutcomes world opts 0 k ?batch = batchOutcomes world opts (int k) 0 ?batch"
    using batchOutcomes_shift [of world opts k 0 ?batch] by simp
  finally show ?thesis .
qed

lemma afterBatch_frame:
  "options (afterBatch clock contracts i results this) = options this"
  "onProgress (afterBatch clock contracts i results this) = onProgress this"
  "failedContracts (status (afterBatch clock contracts i results this)) = failedContracts (status this)"
  by (simp_all add: afterBatch_def)

lemma withFailed_frame:
  "options (withFailed this addrs) = options this"
  "onProgress (withFailed this addrs) = onProgress this"
  "failedContracts (status (withFailed this addrs)) = failedContracts (status this) @ addrs"
  by (simp_all add: withFailed_def)

lemma quietCallback_cong:
  "onProgress this' = onProgress this \<Longrightarrow> quietCallback this' = quietCallback this"
  by (simp add: quietCallback_def)

lemma fetchAll_loop_closed:
  assumes "0 < batchSize (options this)" and "quietCallback this" and "0 \<le> i"
  shows "\<exists>this' log'.
           fetchAll_loop world clock contracts i this results log
             = Some (results @ fetchedOf (runOutcomes world (options this) (nat i) contracts),
                     this', log')
           \<and> failedContracts (status this')
               = failedContracts (status this)
                 @ failedOf (runOutcomes world (options this) (nat i) contracts)"
  using assms
proof (induction "length contracts - nat i" arbitrary: i this results log rule: less_induct)
  case less
  show ?case
  proof (cases "i < int (length contracts)")
    case False
    then have "drop (nat i) contracts = []" by simp
    then have "runOutcomes world (options this) (nat i) contracts = []"
      by (simp add: runOutcomes_def batchOutcomes_def)
    with False show ?thesis
      by (subst fetchAll_loop.simps) (simp add: fetchedOf_def failedOf_def)
  next
    case True
    let ?b = "batchSize (options this)"
    let ?batch = "take (nat ?b) (drop (nat i) contracts)"
    let ?out = "batchOutcomes world (options this) i 0 ?batch"
    obtain batchResults this1 log1
      where pb: "processBatch world this ?batch i log = (batchResults, this1, log1)"
      by (cases "processBatch world this ?batch i log")
    have closed: "batchResults = fetchedOf ?out" "this1 = withFailed this (failedOf ?out)"
      using processBatch_loop_closed [OF less.prems(2), of world i ?batch 0 "[]" log] pb
      by (simp_all add: processBatch_def)
    let ?next = "afterBatch clock contracts i (results @ batchResults) this1"
    let ?logged = "(if saveProgress (options this1)
                 then log1 @ [SaveProgress (results @ batchResults) (status ?next)]
                 else log1)
                @ (if i + batchSize (options this1) < int (length contracts)
                   then [Delay (delayBetweenBatches (options this1))] else [])"
    have o1: "options this1 = options this" and p1: "onProgress this1 = onProgress this"
      using closed(2) by (simp_all add: withFailed_frame)
    have step: "fetchAll_loop world clock contracts i this results log
        = fetchAll_loop world clock contracts (i + ?b) ?next (results @ batchResults) ?logged"
      using True less.prems(1,3) pb
      by (subst fetchAll_loop.simps) (simp add: slice_batch o1)
    have m: "length contracts - nat (i + ?b) < length contracts - nat i"
      using True less.prems(1,3) by linarith
    have q2: "quietCallback ?next"
      using less.prems(2) by (simp add: quietCallback_cong [of ?next this] p1 afterBatch_frame)
    have b2: "0 < batchSize (options ?next)"
      using less.prems(1) by (simp add: o1 afterBatch_frame)
    have i2: "0 \<le> i + ?b" using less.prems(1,3) by simp
    from less.hyps [OF m b2 q2 i2, of "results @ batchResults" ?logged]
    obtain this' log' where
      r: "fetchAll_loop world clock contracts (i + ?b) ?next (results @ batchResults) ?logged
            = Some ((results @ batchResults)
                    @ fetchedOf (runOutcomes world (options this) (nat (i + ?b)) contracts),
                    this', log')"
      and f: "failedContracts (status this')
            = failedContracts (status ?next)
              @ failedOf (runOutcomes world (options this) (nat (i + ?b)) contracts)"
      by (auto simp: o1 afterBatch_frame)
    have n: "nat (i + ?b) = nat i + nat ?b"
      using less.prems(1,3) by (simp add: nat_add_distrib)
    have ii: "int (nat i) = i" using less.prems(3) by simp
    have split: "runOutcomes world (options this) (nat i) contracts
        = ?out @ runOutcomes world (options this) (nat (i + ?b)) contracts"
      using runOutcomes_split [of world "options this" "nat i" contracts "nat ?b"]
      unfolding n ii .
    have "fetchAll_loop world clock contracts i this results log
            = Some (results @ fetchedOf (runOutcomes world (options this) (nat i) contracts),
                    this', log')"
      unfolding step r split by (simp add: closed(1) fetchedOf_append)
    moreover have "failedContracts (status this')
            = failedContracts (status this)
              @ failedOf (runOutcomes world (options this) (nat i) contracts)"
      unfolding f split by (simp add: closed(2) failedOf_append afterBatch_frame withFailed_frame)
    ultimately show ?thesis by blast
  qed
qed


lemma fetchAll_loop_count:
  assumes "0 < batchSize (options this)" and "0 \<le> i"
  shows "\<exists>results' this' log'.
           fetchAll_loop world clock contracts i this results log = Some (results', this', log')
           \<and> length results' + length (failedContracts (status this'))
               = length results + length (failedContracts (status this))
                 + (length contracts - nat i)"
  using assms
proof (induction "length contracts - nat i" arbitrary: i this results log rule: less_induct)
  case less
  show ?case
  proof (cases "i < int (length contracts)")
    case False
    then have "length contracts - nat i = 0" by simp
    with False show ?thesis
      by (subst fetchAll_loop.simps) simp
  next
    case True
    let ?b = "batchSize (options this)"
    let ?batch = "take (nat ?b) (drop (nat i) contracts)"
    obtain batchResults this1 log1
      where pb: "processBatch world this ?batch i log = (batchResults, this1, log1)"
      by (cases "processBatch world this ?batch i log")
    have count: "length batchResults + length (failedContracts (status this1))
                   = length (failedContracts (status this)) + length ?batch"
      using processBatch_loop_count [of world i ?batch 0 this "[]" log] pb
      by (simp add: processBatch_def)
    have o1: "options this1 = options this"
      using processBatch_loop_frame [of world i ?batch 0 this "[]" log] pb
      by (simp add: processBatch_def)
    let ?next = "afterBatch clock contracts i (results @ batchResults) this1"
    let ?logged = "(if saveProgress (options this1)
                 then log1 @ [SaveProgress (results @ batchResults) (status ?next)]
                 else log1)
                @ (if i + batchSize (options this1) < int (length contracts)
                   then [Delay (delayBetweenBatches (options this1))] else [])"
    have step: "fetchAll_loop world clock contracts i this results log
        = fetchAll_loop world clock contracts (i + ?b) ?next (results @ batchResults) ?logged"
      using True less.prems pb
      by (subst fetchAll_loop.simps) (simp add: slice_batch o1)
    have m: "length contracts - nat (i + ?b) < length contracts - nat i"
      using True less.prems by linarith
    have b2: "0 < batchSize (options ?next)"
      using less.prems(1) by (simp add: o1 afterBatch_frame)
    have i2: "0 \<le> i + ?b" using less.prems by simp
    from less.hyps [OF m b2 i2, of "results @ batchResults" ?logged]
    obtain results' this' log' where
      r: "fetchAll_loop world clock contracts (i + ?b) ?next (results @ batchResults) ?logged
            = Some (results', this', log')"
      and c: "length results' + length (failedContracts (status this'))
            = length (results @ batchResults) + length (failedContracts (status ?next))
              + (length contracts - nat (i + ?b))"
      by blast
    have n: "nat (i + ?b) = nat i + nat ?b"
      using less.prems by (simp add: nat_add_distrib)
    have "length ?batch + (length contracts - nat (i + ?b)) = length contracts - nat i"
      unfolding n by simp
    with c count
    have "length results' + length (failedContracts (status this'))
            = length results + length (failedContracts (status this))
              + (length contracts - nat i)"
      by (simp add: afterBatch_frame)
    with r show ?thesis unfolding step by blast
  qed
qed

lemma fetchAll_count:
  assumes "0 < batchSize (options this)" and "0 \<le> startIndexOf (options this)"
  shows "map_option (\<lambda>r. length (fst r) + length (failedContracts (status (fst (snd r)))))
           (fetchAll world started clock previousResults this contracts log)
         = Some (length (if 0 < startIndexOf (options this) then previousResults else [])
                 + length (failedContracts (status this))
                 + (length contracts - nat (startIndexOf (options this))))"
proof -
  let ?initial = "this\<lparr>status := (status this)
                    \<lparr> ProcessingStatus.totalContracts := int (length contracts),
                      startedAt := started \<rparr>\<rparr>"
  let ?k = "startIndexOf (options this)"
  let ?results = "if 0 < ?k then previousResults else []"
  have b: "0 < batchSize (options ?initial)" using assms(1) by simp
  have run: "fetchAll world started clock previousResults this contracts log
               = fetchAll_loop world clock contracts ?k ?initial ?results log"
    by (simp add: fetchAll_def startIndexOf_def Let_def)
  from fetchAll_loop_count [OF b assms(2), of world clock contracts ?results log]
  obtain results' this' log' where
    "fetchAll_loop world clock contracts ?k ?initial ?results log = Some (results', this', log')"
    and "length results' + length (failedContracts (status this'))
       = length ?results + length (failedContracts (status ?initial)) + (length contracts - nat ?k)"
    by blast
  then show ?thesis unfolding run by simp
qed

lemma fetchAll_closed:
  assumes "quietCallback this" and "0 < batchSize (options this)"
    and "0 \<le> startIndexOf (options this)"
  shows "map_option fst (fetchAll world started clock previousResults this contracts log)
           = Some ((if 0 < startIndexOf (options this) then previousResults else [])
                   @ fetchedOf (runOutcomes world (options this)
                                  (nat (startIndexOf (options this))) contracts))
         \<and> map_option (\<lambda>r. failedContracts (status (fst (snd r))))
               (fetchAll world started clock previousResults this contracts log)
           = Some (failedContracts (status this)
                   @ failedOf (runOutcomes world (options this)
                                 (nat (startIndexOf (options this))) contracts))"
proof -
  let ?initial = "this\<lparr>status := (status this)
                    \<lparr> ProcessingStatus.totalContracts := int (length contracts),
                      startedAt := started \<rparr>\<rparr>"
  let ?k = "startIndexOf (options this)"
  let ?results = "if 0 < ?k then previousResults else []"
  have o: "options ?initial = options this" by simp
  have q: "quietCallback ?initial" using assms(1) by (simp add: quietCallback_def)
  have b: "0 < batchSize (options ?initial)" using assms(2) by simp
  have f: "failedContracts (status ?initial) = failedContracts (status this)" by simp
  have run: "fetchAll world started clock previousResults this contracts log
               = fetchAll_loop world clock contracts ?k ?initial ?results log"
    by (simp add: fetchAll_def startIndexOf_def Let_def)
  from fetchAll_loop_closed [OF b q assms(3), of world clock contracts ?results log]
  obtain this' log' where
    "fetchAll_loop world clock contracts ?k ?initial ?results log
       = Some (?results @ fetchedOf (runOutcomes world (options this) (nat ?k) contracts),
               this', log')"
    and "failedContracts (status this')
       = failedContracts (status this)
         @ failedOf (runOutcomes world (options this) (nat ?k) contracts)"
    unfolding o f by blast
  then show ?thesis unfolding run by simp
qed

text \<open>
  Claim C2. \<^verbatim>\<open>processBatch\<close> returns for every batch, and every entry of the batch is
  accounted for: it is among the results or its address is added to the failed list.
  With a callback that does not throw, the results are the fetched contracts of exactly the
  entries whose fetch with retry succeeds, in order, and the failed list grows by the
  addresses of exactly the entries whose fetch with retry ends in an error, in order; the
  outcome of an entry is that of its own fetch at its own index, whatever happened to the
  entries before it. Nothing else of the fetcher changes.

  The same holds of a whole run of \<^verbatim>\<open>fetchAll\<close>, with a positive batch size, a start
  index that is not negative and writes of the progress file that succeed: the run returns,
  every entry from the start index on is accounted for, and with a callback that does not
  throw the results and the failed list are those of the outcomes of the entries, each at its
  own index, after the results loaded from an earlier run when the run resumes.
\<close>

theorem processBatch_isolates_failures:
  "length (fst (processBatch world this batch start log))
     + length (failedContracts (status (fst (snd (processBatch world this batch start log)))))
     = length (failedContracts (status this)) + length batch
   \<and> (quietCallback this \<longrightarrow>
        fst (processBatch world this batch start log)
          = fetchedOf (batchOutcomes world (options this) start 0 batch)
        \<and> fst (snd (processBatch world this batch start log))
          = withFailed this (failedOf (batchOutcomes world (options this) start 0 batch))
        \<and> length (fetchedOf (batchOutcomes world (options this) start 0 batch))
            + length (failedOf (batchOutcomes world (options this) start 0 batch)) = length batch)
   \<and> (quietCallback this \<and> i < length batch
        \<and> retryOutcome (options this) (world (start + int i)) (batch ! i) = Raised e \<longrightarrow>
        ContractEntry.address (batch ! i)
          \<in> set (failedContracts (status (fst (snd (processBatch world this batch start log))))))
   \<and> (quietCallback this \<and> i < length batch
        \<and> retryOutcome (options this) (world (start + int i)) (batch ! i) = Fetched v \<longrightarrow>
        v \<in> set (fst (processBatch world this batch start log)))
   \<and> (0 < batchSize (options this) \<and> 0 \<le> startIndexOf (options this) \<longrightarrow>
        map_option (\<lambda>r. length (fst r) + length (failedContracts (status (fst (snd r)))))
          (fetchAll world started clock previousResults this contracts log)
          = Some (length (if 0 < startIndexOf (options this) then previousResults else [])
                  + length (failedContracts (status this))
                  + (length contracts - nat (startIndexOf (options this)))))
   \<and> (quietCallback this \<and> 0 < batchSize (options this) \<and> 0 \<le> startIndexOf (options this) \<longrightarrow>
        map_option fst (fetchAll world started clock previousResults this contracts log)
          = Some ((if 0 < startIndexOf (options this) then previousResults else [])
                  @ fetchedOf (runOutcomes world (options this)
                                 (nat (startIndexOf (options this))) contracts))
        \<and> map_option (\<lambda>r. failedContracts (status (fst (snd r))))
              (fetchAll world started clock previousResults this contracts log)
          = Some (failedContracts (status this)
                  @ failedOf (runOutcomes world (options this)
                                (nat (startIndexOf (options this))) contracts)))"
proof -
  have count: "length (fst (processBatch world this batch start log))
     + length (failedContracts (status (fst (snd (processBatch world this batch start log)))))
     = length (failedContracts (status this)) + length batch"
    using processBatch_loop_count [of world start batch 0 this "[]" log]
    by (simp add: processBatch_def)
  have closed: "fst (processBatch world this batch start log)
          = fetchedOf (batchOutcomes world (options this) start 0 batch)
        \<and> fst (snd (processBatch world this batch start log))
          = withFailed this (failedOf (batchOutcomes world (options this) start 0 batch))"
    if "quietCallback this"
    using processBatch_loop_closed [OF that, of world start batch 0 "[]" log]
    by (simp add: processBatch_def)
  have len: "length (fetchedOf (batchOutcomes world (options this) start 0 batch))
            + length (failedOf (batchOutcomes world (options this) start 0 batch)) = length batch"
    by (simp add: length_fetched_failed batchOutcomes_def)
  have failed: "ContractEntry.address (batch ! i)
          \<in> set (failedContracts (status (fst (snd (processBatch world this batch start log)))))"
    if "quietCallback this" "i < length batch"
      "retryOutcome (options this) (world (start + int i)) (batch ! i) = Raised e"
    using closed [OF that(1)] in_batchOutcomes [OF that(2), of "options this" world start]
      in_failedOf [of "batch ! i" e "batchOutcomes world (options this) start 0 batch"] that(3)
    by (simp add: withFailed_def)
  have fetched: "v \<in> set (fst (processBatch world this batch start log))"
    if "quietCallback this" "i < length batch"
      "retryOutcome (options this) (world (start + int i)) (batch ! i) = Fetched v"
    using closed [OF that(1)] in_batchOutcomes [OF that(2), of "options this" world start]
      in_fetchedOf [of "batch ! i" v "batchOutcomes world (options this) start 0 batch"] that(3)
    by simp
  have runCount: "map_option (\<lambda>r. length (fst r) + length (failedContracts (status (fst (snd r)))))
          (fetchAll world started clock previousResults this contracts log)
          = Some (length (if 0 < startIndexOf (options this) then previousResults else [])
                  + length (failedContracts (status this))
                  + (length contracts - nat (startIndexOf (options this))))"
    if "0 < batchSize (options this)" "0 \<le> startIndexOf (options this)"
    by (rule fetchAll_count [OF that])
  have run: "map_option fst (fetchAll world started clock previousResults this contracts log)
          = Some ((if 0 < startIndexOf (options this) then previousResults else [])
                  @ fetchedOf (runOutcomes world (options this)
                                 (nat (startIndexOf (options this))) contracts))
        \<and> map_option (\<lambda>r. failedContracts (status (fst (snd r))))
              (fetchAll world started clock previousResults this contracts log)
          = Some (failedContracts (status this)
                  @ failedOf (runOutcomes world (options this)
                                (nat (startIndexOf (options this))) contracts))"
    if "quietCallback this" "0 < batchSize (options this)" "0 \<le> startIndexOf (options this)"
    by (rule fetchAll_closed [OF that])
  have batch: "length (fst (processBatch world this batch start log))
     + length (failedContracts (status (fst (snd (processBatch world this batch start log)))))
     = length (failedContracts (status this)) + length batch
   \<and> (quietCallback this \<longrightarrow>
        fst (processBatch world this batch start log)
          = fetchedOf (batchOutcomes world (options this) start 0 batch)
        \<and> fst (snd (processBatch world this batch start log))
          = withFailed this (failedOf (batchOutcomes world (options this) start 0 batch))
        \<and> length (fetchedOf (batchOutcomes world (options this) start 0 batch))
            + length (failedOf (batchOutcomes world (options this) start 0 batch)) = length batch)
   \<and> (quietCallback this \<and> i < length batch
        \<and> retryOutcome (options this) (world (start + int i)) (batch ! i) = Raised e \<longrightarrow>
        ContractEntry.address (batch ! i)
          \<in> set (failedContracts (status (fst (snd (processBatch world this batch start log))))))
   \<and> (quietCallback this \<and> i < length batch
        \<and> retryOutcome (options this) (world (start + int i)) (batch ! i) = Fetched v \<longrightarrow>
        v \<in> set (fst (processBatch world this batch start log)))"
    using count closed len failed fetched by blast
  show ?thesis
    using batch runCount run by blast
qed

lemma outcome_notVerified:
  "maxRetries opts = 3 \<Longrightarrow>
     retryOutcome opts notVerifiedFetch c = Raised (Some ''Contract source code not verified'')"
  by (simp add: retryOutcome_def fetchContractWithRetry_def fetchContractWithRetry_loop.simps
        notVerifiedFetch_def)

lemma outcome_flaky:
  "maxRetries opts = 3 \<Longrightarrow> retryOutcome opts flakyFetch c = Fetched (fetchedStub c)"
  by (simp add: retryOutcome_def fetchContractWithRetry_def fetchContractWithRetry_loop.simps
        flakyFetch_def)

lemma outcome_timeout:
  "maxRetries opts = 3 \<Longrightarrow>
     retryOutcome opts timeoutFetch c = Raised (Some ''timeout of 15000ms exceeded'')"
  by (simp add: retryOutcome_def fetchContractWithRetry_def fetchContractWithRetry_loop.simps
        timeoutFetch_def)

theorem processBatch_isolates_failures_witness:
  "quietCallback (newBatchContractFetcher DEFAULT_FETCH_OPTIONS [])
   \<and> fst (processBatch testWorld (newBatchContractFetcher DEFAULT_FETCH_OPTIONS []) testEntries 0 [])
       = [fetchedStub (testEntries ! 1)]
   \<and> failedContracts (status (fst (snd
         (processBatch testWorld (newBatchContractFetcher DEFAULT_FETCH_OPTIONS []) testEntries 0 []))))
       = [''0x1234567890123456789012345678901234567890'',
          ''0x0987654321098765432109876543210987654321'']
   \<and> quietCallback (newBatchContractFetcher oneByOne [])
   \<and> 0 < batchSize (options (newBatchContractFetcher oneByOne []))
   \<and> 0 \<le> startIndexOf (options (newBatchContractFetcher oneByOne []))
   \<and> map_option fst
       (fetchAll testWorld [] (\<lambda>i. []) [] (newBatchContractFetcher oneByOne []) testEntries [])
       = Some [fetchedStub (testEntries ! 1)]
   \<and> map_option (\<lambda>r. failedContracts (status (fst (snd r))))
       (fetchAll testWorld [] (\<lambda>i. []) [] (newBatchContractFetcher oneByOne []) testEntries [])
       = Some [''0x1234567890123456789012345678901234567890'',
               ''0x0987654321098765432109876543210987654321'']"
proof -
  let ?fetcher = "newBatchContractFetcher DEFAULT_FETCH_OPTIONS []"
  let ?single = "newBatchContractFetcher oneByOne []"
  have q: "quietCallback ?fetcher"
    by (simp add: quietCallback_def newBatchContractFetcher_def)
  have o: "options ?fetcher = DEFAULT_FETCH_OPTIONS"
    by (simp add: newBatchContractFetcher_def)
  have m: "maxRetries DEFAULT_FETCH_OPTIONS = 3" by (simp add: DEFAULT_FETCH_OPTIONS_def)
  have outs: "batchOutcomes testWorld DEFAULT_FETCH_OPTIONS 0 0 testEntries
     = [(testEntries ! 0, Raised (Some ''Contract source code not verified'')),
        (testEntries ! 1, Fetched (fetchedStub (testEntries ! 1))),
        (testEntries ! 2, Raised (Some ''timeout of 15000ms exceeded''))]"
    by (simp add: batchOutcomes_def testEntries_def testWorld_def outcome_notVerified [OF m]
          outcome_flaky [OF m] outcome_timeout [OF m])
  from processBatch_isolates_failures
         [of testWorld ?fetcher testEntries 0 "[]"] q
  have "fst (processBatch testWorld ?fetcher testEntries 0 [])
          = fetchedOf (batchOutcomes testWorld DEFAULT_FETCH_OPTIONS 0 0 testEntries)"
    and "fst (snd (processBatch testWorld ?fetcher testEntries 0 []))
          = withFailed ?fetcher
              (failedOf (batchOutcomes testWorld DEFAULT_FETCH_OPTIONS 0 0 testEntries))"
    unfolding o by blast+
  then have batch: "fst (processBatch testWorld ?fetcher testEntries 0 [])
       = [fetchedStub (testEntries ! 1)]
   \<and> failedContracts (status (fst (snd (processBatch testWorld ?fetcher testEntries 0 []))))
       = [''0x1234567890123456789012345678901234567890'',
          ''0x0987654321098765432109876543210987654321'']"
    unfolding outs
    by (simp add: fetchedOf_def failedOf_def withFailed_def newBatchContractFetcher_def
          testEntries_def)
  have q1: "quietCallback ?single"
    by (simp add: quietCallback_def newBatchContractFetcher_def)
  have o1: "options ?single = oneByOne"
    by (simp add: newBatchContractFetcher_def)
  have b1: "0 < batchSize oneByOne" by (simp add: oneByOne_def)
  have k1: "startIndexOf oneByOne = 0"
    by (simp add: startIndexOf_def oneByOne_def DEFAULT_FETCH_OPTIONS_def)
  have m1: "maxRetries oneByOne = 3" by (simp add: oneByOne_def DEFAULT_FETCH_OPTIONS_def)
  have f1: "failedContracts (status ?single) = []" by (simp add: newBatchContractFetcher_def)
  have outs1: "runOutcomes testWorld oneByOne 0 testEntries
     = [(testEntries ! 0, Raised (Some ''Contract source code not verified'')),
        (testEntries ! 1, Fetched (fetchedStub (testEntries ! 1))),
        (testEntries ! 2, Raised (Some ''timeout of 15000ms exceeded''))]"
    by (simp add: runOutcomes_def batchOutcomes_def testEntries_def testWorld_def
          outcome_notVerified [OF m1] outcome_flaky [OF m1] outcome_timeout [OF m1])
  from processBatch_isolates_failures
         [where this = ?single and world = testWorld and contracts = testEntries
            and started = "[]" and clock = "\<lambda>i. []" and previousResults = "[]"
            and log = "[]"] q1 b1 k1
  have "map_option fst (fetchAll testWorld [] (\<lambda>i. []) [] ?single testEntries [])
          = Some (fetchedOf (runOutcomes testWorld oneByOne 0 testEntries))"
    and "map_option (\<lambda>r. failedContracts (status (fst (snd r))))
           (fetchAll testWorld [] (\<lambda>i. []) [] ?single testEntries [])
          = Some (failedOf (runOutcomes testWorld oneByOne 0 testEntries))"
    unfolding o1 f1 by simp_all
  then have run: "map_option fst (fetchAll testWorld [] (\<lambda>i. []) [] ?single testEntries [])
       = Some [fetchedStub (testEntries ! 1)]
   \<and> map_option (\<lambda>r. failedContracts (status (fst (snd r))))
       (fetchAll testWorld [] (\<lambda>i. []) [] ?single testEntries [])
       = Some [''0x1234567890123456789012345678901234567890'',
               ''0x0987654321098765432109876543210987654321'']"
    unfolding outs1
    by (simp add: fetchedOf_def failedOf_def testEntries_def)
  show ?thesis
    using q batch q1 b1 k1 run unfolding o1 by simp
qed


section \<open>Invariants of the graph builders\<close>

lemma foldl_preserves:
  assumes "P s" and "\<And>s x. x \<in> set xs \<Longrightarrow> P s \<Longrightarrow> P (f s x)"
  shows "P (foldl f s xs)"
  using assms by (induction xs arbitrary: s) auto

lemma code_hasEdge_key:
  "code_hasEdge this src tgt rel \<longleftrightarrow> (src, tgt, rel) \<in> edgeKeyOf ` set (CodeGraphBuilder.edges this)"
  by (auto simp: code_hasEdge_def list_ex_iff edgeKeyOf_def image_iff)

lemma codeStable_addEdge:
  assumes "codeStable A this0 this" and "src \<in> A" and "tgt \<in> A"
  shows "codeStable A this0 (code_addEdge this src tgt rel md)"
  using assms
  by (auto simp: codeStable_def code_addEdge_def code_hasEdge_key edgesWithin_def edgeKeyOf_def)

lemma codeStable_addEdgesTo:
  assumes "codeStable A this0 this" and "ca \<in> A" and "set targets \<subseteq> A"
  shows "codeStable A this0 (addEdgesTo this ca targets rel md)"
  unfolding addEdgesTo_def
proof (rule foldl_preserves [where P = "codeStable A this0"])
  show "codeStable A this0 this" by (rule assms(1))
next
  fix s x
  assume "x \<in> set targets" and "codeStable A this0 s"
  then show "codeStable A this0 (if x \<noteq> ca then code_addEdge s ca x rel md else s)"
    using assms(2,3) by (auto intro: codeStable_addEdge)
qed

lemma mapGet_indexed:
  "mapGet names k = Some addrs \<Longrightarrow> set addrs \<subseteq> indexedAddresses names"
proof -
  assume "mapGet names k = Some addrs"
  then have "(k, addrs) \<in> set names"
    by (simp add: mapGet_def map_of_SomeD)
  then have "set addrs \<in> set ` snd ` set names"
    by force
  then show ?thesis
    unfolding indexedAddresses_def by (rule Union_upper)
qed

lemma findContractsByName_within:
  assumes "codeIndexWithin A this0" and "nameToAddresses this = nameToAddresses this0"
  shows "set (findContractsByName this nm) \<subseteq> A"
proof (cases "mapGet (nameToAddresses this) (toLowerCase nm)")
  case None
  then show ?thesis by (simp add: findContractsByName_def)
next
  case (Some addrs)
  then have "set addrs \<subseteq> indexedAddresses (nameToAddresses this0)"
    using assms(2) mapGet_indexed [of "nameToAddresses this" "toLowerCase nm" addrs] by simp
  also have "\<dots> \<subseteq> A"
    using assms(1) by (simp add: codeIndexWithin_def)
  finally show ?thesis
    using Some by (simp add: findContractsByName_def)
qed

lemma codeStable_sameProtocol:
  assumes "codeStable A this0 this" and "codeIndexWithin A this0"
    and "toLowerCase (FetchedContract.address contract) \<in> A"
  shows "codeStable A this0 (buildSameProtocolEdges this contract)"
proof -
  let ?ca = "toLowerCase (FetchedContract.address contract)"
  have step: "(if \<not> code_hasEdge s ?ca addr Rel_same_protocol
        then s\<lparr>CodeGraphBuilder.edges := CodeGraphBuilder.edges s @
               [\<lparr> ContractEdge.source = ?ca, ContractEdge.target = addr,
                  relationshipType = Rel_same_protocol, ContractEdge.metadata = None \<rparr>]\<rparr>
        else s) = code_addEdge s ?ca addr Rel_same_protocol None" for s addr
    by (simp add: code_addEdge_def)
  have keys: "fst ` set (CodeGraphBuilder.nodes this) \<subseteq> A"
    using assms(1,2) by (simp add: codeStable_def codeIndexWithin_def)
  show ?thesis
    unfolding buildSameProtocolEdges_def Let_def step
  proof (rule foldl_preserves [where P = "codeStable A this0"])
    show "codeStable A this0 this" by (rule assms(1))
  next
    fix s x
    assume x: "x \<in> set (CodeGraphBuilder.nodes this)" and s: "codeStable A this0 s"
    obtain addr node where xe: "x = (addr, node)" by (cases x)
    with x keys have "addr \<in> A" by force
    with s assms(3) show "codeStable A this0
        (case x of (addr, node) \<Rightarrow>
           if addr \<noteq> ?ca \<and> ContractNode.protocol node = FetchedContract.protocol contract
           then code_addEdge s ?ca addr Rel_same_protocol None else s)"
      by (simp add: xe codeStable_addEdge)
  qed
qed

lemma codeStable_names:
  assumes "codeStable A this0 this" and "codeIndexWithin A this0"
    and "ca \<in> A"
  shows "codeStable A this0 (addEdgesTo this ca (findContractsByName this nm) rel md)"
  using assms
  by (intro codeStable_addEdgesTo findContractsByName_within [of A this0]) (simp_all add: codeStable_def)

lemma codeStable_inheritance:
  assumes "codeStable A this0 this" and "codeIndexWithin A this0"
    and "toLowerCase (FetchedContract.address contract) \<in> A"
  shows "codeStable A this0 (buildInheritanceEdges X this contract src)"
  unfolding buildInheritanceEdges_def Let_def
  using assms by (intro foldl_preserves [where P = "codeStable A this0"] codeStable_names)

lemma codeStable_imports:
  assumes "codeStable A this0 this" and "codeIndexWithin A this0"
    and "toLowerCase (FetchedContract.address contract) \<in> A"
  shows "codeStable A this0 (buildImportEdges X this contract src)"
  unfolding buildImportEdges_def Let_def
proof (rule foldl_preserves [where P = "codeStable A this0"])
  show "codeStable A this0 this" by (rule assms(1))
next
  fix s x
  assume "codeStable A this0 s"
  then show "codeStable A this0
     (case importContractName x of
        Some nm \<Rightarrow> addEdgesTo s (toLowerCase (FetchedContract.address contract))
                      (findContractsByName s nm) Rel_imports None
      | None \<Rightarrow> s)"
    using assms(2,3) by (auto split: option.splits intro: codeStable_names)
qed

lemma codeStable_externalCalls:
  assumes "codeStable A this0 this" and "codeIndexWithin A this0"
    and "toLowerCase (FetchedContract.address contract) \<in> A"
  shows "codeStable A this0 (buildExternalCallEdges X this contract src)"
  unfolding buildExternalCallEdges_def Let_def
proof (rule foldl_preserves [where P = "codeStable A this0"])
  show "codeStable A this0 this" by (rule assms(1))
next
  fix s x
  assume "codeStable A this0 s"
  then show "codeStable A this0
     (case splitCall x of
        (interfaceName, fnName) \<Rightarrow>
          addEdgesTo s (toLowerCase (FetchedContract.address contract))
            (findContractsByName s interfaceName) Rel_calls
            (Some \<lparr> functionName = fnName, eventName = None, similarity = None \<rparr>))"
    using assms(2,3) by (auto split: prod.splits intro: codeStable_names)
qed

lemma codeStable_interfaces:
  assumes "codeStable A this0 this" and "codeIndexWithin A this0"
    and "toLowerCase (FetchedContract.address contract) \<in> A"
  shows "codeStable A this0 (buildInterfaceEdges X this contract src)"
  unfolding buildInterfaceEdges_def Let_def
  using assms by (intro foldl_preserves [where P = "codeStable A this0"] codeStable_names)

lemma referencedNodes_acc:
  "set acc \<subseteq> set keys \<Longrightarrow>
   set (foldl (\<lambda>found match.
                 let addr = toLowerCase match
                 in if addr \<noteq> ca \<and> addr \<in> set keys then setAdd found addr else found)
          acc ms) \<subseteq> set keys"
  by (induction ms arbitrary: acc) (simp_all add: Let_def)

lemma referencedNodes_subset: "set (referencedNodes keys ca src) \<subseteq> set keys"
  unfolding referencedNodes_def by (rule referencedNodes_acc) simp

lemma codeStable_addressReferences:
  assumes "codeStable A this0 this" and "codeIndexWithin A this0"
    and "toLowerCase (FetchedContract.address contract) \<in> A"
  shows "codeStable A this0 (buildAddressReferenceEdges this contract src)"
  unfolding buildAddressReferenceEdges_def Let_def
proof (rule foldl_preserves [where P = "codeStable A this0"])
  show "codeStable A this0 this" by (rule assms(1))
next
  fix s x
  assume x: "x \<in> set (referencedNodes (map fst (CodeGraphBuilder.nodes this))
                        (toLowerCase (FetchedContract.address contract)) src)"
    and s: "codeStable A this0 s"
  from x referencedNodes_subset have "x \<in> fst ` set (CodeGraphBuilder.nodes this)" by fastforce
  with assms(1,2) have "x \<in> A" by (auto simp: codeStable_def codeIndexWithin_def)
  with s assms(3) show "codeStable A this0
      (code_addEdge s (toLowerCase (FetchedContract.address contract)) x Rel_calls None)"
    by (simp add: codeStable_addEdge)
qed

lemma codeStable_buildEdgesForContract:
  assumes "codeStable A this0 this" and "codeIndexWithin A this0"
    and "toLowerCase (FetchedContract.address contract) \<in> A"
  shows "codeStable A this0 (buildEdgesForContract X this contract)"
  unfolding buildEdgesForContract_def Let_def
  using assms
  by (intro codeStable_addressReferences codeStable_interfaces codeStable_externalCalls
        codeStable_imports codeStable_inheritance codeStable_sameProtocol)


lemma mapSet_keys: "fst ` set (mapSet m k v) = insert k (fst ` set m)"
  by (induction m k v rule: mapSet.induct) auto

lemma mapSet_map_fst:
  "map fst (mapSet m k v) = (if k \<in> fst ` set m then map fst m else map fst m @ [k])"
  by (induction m k v rule: mapSet.induct) (auto simp: image_iff)

lemma mapSet_distinct: "distinct (map fst m) \<Longrightarrow> distinct (map fst (mapSet m k v))"
  by (simp add: mapSet_map_fst)

lemma mapSet_set: "set (mapSet m k v) \<subseteq> insert (k, v) (set m)"
  by (induction m k v rule: mapSet.induct) auto

lemma keyedBy_mapSet: "keyedBy f m \<Longrightarrow> k = f v \<Longrightarrow> keyedBy f (mapSet m k v)"
  using mapSet_set [of m k v] by (auto simp: keyedBy_def)

lemma keyedBy_map: "keyedBy f m \<Longrightarrow> map f (map snd m) = map fst m"
  by (induction m) (auto simp: keyedBy_def)

lemma edgesWithin_mono: "edgesWithin A es \<Longrightarrow> A \<subseteq> B \<Longrightarrow> edgesWithin B es"
  by (auto simp: edgesWithin_def)

text \<open>The indexing loop of \<^verbatim>\<open>addContracts\<close> touches the two indexes only.\<close>

lemma indexContract_frame:
  "CodeGraphBuilder.nodes (code_indexContract this c) = CodeGraphBuilder.nodes this"
  "CodeGraphBuilder.edges (code_indexContract this c) = CodeGraphBuilder.edges this"
  by (simp_all add: code_indexContract_def Let_def)

lemma indexedAddresses_mapSet:
  "indexedAddresses (mapSet names k addrs) \<subseteq> set addrs \<union> indexedAddresses names"
proof -
  have "set (mapSet names k addrs) \<subseteq> insert (k, addrs) (set names)"
    by (rule mapSet_set)
  then have "\<Union> (set ` snd ` set (mapSet names k addrs))
          \<subseteq> \<Union> (set ` snd ` insert (k, addrs) (set names))"
    by (intro Union_mono image_mono)
  then show ?thesis
    by (simp add: indexedAddresses_def)
qed

lemma indexContract_names:
  "indexedAddresses (nameToAddresses (code_indexContract this c))
     \<subseteq> insert (toLowerCase (FetchedContract.address c)) (indexedAddresses (nameToAddresses this))"
proof -
  let ?nm = "toLowerCase (FetchedContract.contractName c)"
  let ?old = "case mapGet (nameToAddresses this) ?nm of Some found \<Rightarrow> found | None \<Rightarrow> []"
  have old: "set ?old \<subseteq> indexedAddresses (nameToAddresses this)"
    using mapGet_indexed [of "nameToAddresses this" ?nm]
    by (cases "mapGet (nameToAddresses this) ?nm") simp_all
  have "indexedAddresses (mapSet (nameToAddresses this) ?nm
           (?old @ [toLowerCase (FetchedContract.address c)]))
          \<subseteq> set (?old @ [toLowerCase (FetchedContract.address c)])
              \<union> indexedAddresses (nameToAddresses this)"
    by (rule indexedAddresses_mapSet)
  also have "\<dots> \<subseteq> insert (toLowerCase (FetchedContract.address c))
                      (indexedAddresses (nameToAddresses this))"
    using old by auto
  finally show ?thesis
    by (simp add: code_indexContract_def Let_def)
qed

lemma index_phase:
  "CodeGraphBuilder.nodes (foldl code_indexContract this cs) = CodeGraphBuilder.nodes this
   \<and> CodeGraphBuilder.edges (foldl code_indexContract this cs) = CodeGraphBuilder.edges this
   \<and> indexedAddresses (nameToAddresses (foldl code_indexContract this cs))
        \<subseteq> indexedAddresses (nameToAddresses this) \<union> lowerAddresses cs"
proof (induction cs arbitrary: this)
  case Nil
  show ?case by (simp add: lowerAddresses_def)
next
  case (Cons c cs)
  have l: "lowerAddresses (c # cs) = insert (toLowerCase (FetchedContract.address c)) (lowerAddresses cs)"
    by (simp add: lowerAddresses_def)
  show ?case
    using Cons.IH [of "code_indexContract this c"] indexContract_names [of this c]
    unfolding l by (simp add: indexContract_frame) blast
qed

text \<open>The node loop keeps the keys distinct and equal to the lower-cased node addresses.\<close>

lemma node_phase:
  fixes X :: abiExtractor
  defines "step \<equiv> (\<lambda>this contract.
             this\<lparr>CodeGraphBuilder.nodes :=
               mapSet (CodeGraphBuilder.nodes this)
                 (toLowerCase (FetchedContract.address contract)) (code_buildNode X contract)\<rparr>)"
  assumes "distinct (map fst (CodeGraphBuilder.nodes this))"
    and "keyedBy (\<lambda>n. toLowerCase (ContractNode.address n)) (CodeGraphBuilder.nodes this)"
  shows "CodeGraphBuilder.edges (foldl step this cs) = CodeGraphBuilder.edges this
   \<and> nameToAddresses (foldl step this cs) = nameToAddresses this
   \<and> fst ` set (CodeGraphBuilder.nodes (foldl step this cs))
        = fst ` set (CodeGraphBuilder.nodes this) \<union> lowerAddresses cs
   \<and> distinct (map fst (CodeGraphBuilder.nodes (foldl step this cs)))
   \<and> keyedBy (\<lambda>n. toLowerCase (ContractNode.address n))
        (CodeGraphBuilder.nodes (foldl step this cs))"
  using assms(2,3)
proof (induction cs arbitrary: this)
  case Nil
  then show ?case by (simp add: lowerAddresses_def)
next
  case (Cons c cs)
  have d: "distinct (map fst (CodeGraphBuilder.nodes (step this c)))"
    using Cons.prems(1) by (simp add: step_def mapSet_distinct)
  have k: "keyedBy (\<lambda>n. toLowerCase (ContractNode.address n)) (CodeGraphBuilder.nodes (step this c))"
    using Cons.prems(2) by (simp add: step_def keyedBy_mapSet code_buildNode_def)
  show ?case
    using Cons.IH [OF d k]
    by (auto simp: step_def mapSet_keys lowerAddresses_def)
qed

lemma codeInv_addContracts:
  assumes "codeInv A this"
  shows "codeInv (A \<union> lowerAddresses cs) (code_addContracts X this cs)"
proof -
  let ?A' = "A \<union> lowerAddresses cs"
  define indexed where "indexed = foldl code_indexContract this cs"
  define withNodes where "withNodes = foldl (\<lambda>this contract.
             this\<lparr>CodeGraphBuilder.nodes :=
               mapSet (CodeGraphBuilder.nodes this)
                 (toLowerCase (FetchedContract.address contract)) (code_buildNode X contract)\<rparr>)
           indexed cs"
  have res: "code_addContracts X this cs = foldl (buildEdgesForContract X) withNodes cs"
    by (simp add: code_addContracts_def Let_def indexed_def withNodes_def)
  note ip = index_phase [of this cs, folded indexed_def]
  have di: "distinct (map fst (CodeGraphBuilder.nodes indexed))"
    and ki: "keyedBy (\<lambda>n. toLowerCase (ContractNode.address n)) (CodeGraphBuilder.nodes indexed)"
    using assms ip by (simp_all add: codeInv_def)
  note np = node_phase [OF di ki, of X cs, folded withNodes_def]
  have e2: "edgesWithin ?A' (CodeGraphBuilder.edges withNodes)"
    using assms np ip by (auto simp: codeInv_def intro: edgesWithin_mono)
  have keys2: "fst ` set (CodeGraphBuilder.nodes withNodes) = ?A'"
    using assms np ip by (simp add: codeInv_def)
  have names2: "indexedAddresses (nameToAddresses withNodes) \<subseteq> ?A'"
    using assms np ip by (simp add: codeInv_def) blast
  have idx: "codeIndexWithin ?A' withNodes"
    using keys2 names2 by (simp add: codeIndexWithin_def)
  have st0: "codeStable ?A' withNodes withNodes"
    using e2 by (simp add: codeStable_def)
  have st: "codeStable ?A' withNodes (foldl (buildEdgesForContract X) withNodes cs)"
  proof (rule foldl_preserves [where P = "codeStable ?A' withNodes"])
    show "codeStable ?A' withNodes withNodes" by (rule st0)
  next
    fix s x
    assume "x \<in> set cs" and s: "codeStable ?A' withNodes s"
    then have "toLowerCase (FetchedContract.address x) \<in> ?A'"
      by (simp add: lowerAddresses_def)
    with s idx show "codeStable ?A' withNodes (buildEdgesForContract X s x)"
      by (intro codeStable_buildEdgesForContract)
  qed
  show ?thesis
    unfolding res
    using st keys2 names2 np by (simp add: codeStable_def codeInv_def)
qed

lemma codeInv_new: "codeInv {} newCodeGraphBuilder"
  by (simp add: codeInv_def newCodeGraphBuilder_def edgesWithin_def keyedBy_def indexedAddresses_def)

lemma codeInv_calls:
  "codeInv A this \<Longrightarrow> codeInv (A \<union> addedAddresses calls) (foldl (code_addContracts X) this calls)"
proof (induction calls arbitrary: A this)
  case Nil
  then show ?case by (simp add: addedAddresses_def)
next
  case (Cons cs calls)
  have "A \<union> addedAddresses (cs # calls) = (A \<union> lowerAddresses cs) \<union> addedAddresses calls"
    by (auto simp: addedAddresses_def lowerAddresses_def)
  then show ?case
    using Cons.IH [OF codeInv_addContracts [OF Cons.prems, of cs X]] by simp
qed

lemma code_graph_invariant:
  "distinct (map (\<lambda>n. toLowerCase (ContractNode.address n))
       (CodeGraph.nodes (code_build now (foldl (code_addContracts X) newCodeGraphBuilder calls))))
   \<and> (\<lambda>n. toLowerCase (ContractNode.address n)) `
         set (CodeGraph.nodes (code_build now (foldl (code_addContracts X) newCodeGraphBuilder calls)))
       = addedAddresses calls
   \<and> distinct (map edgeKeyOf
       (CodeGraph.edges (code_build now (foldl (code_addContracts X) newCodeGraphBuilder calls))))
   \<and> ContractEdge.source `
         set (CodeGraph.edges (code_build now (foldl (code_addContracts X) newCodeGraphBuilder calls)))
       \<subseteq> addedAddresses calls
   \<and> ContractEdge.target `
         set (CodeGraph.edges (code_build now (foldl (code_addContracts X) newCodeGraphBuilder calls)))
       \<subseteq> addedAddresses calls"
proof -
  define b where "b = foldl (code_addContracts X) newCodeGraphBuilder calls"
  have inv: "codeInv (addedAddresses calls) b"
    using codeInv_calls [OF codeInv_new, of calls X] by (simp add: b_def)
  have k: "map (\<lambda>n. toLowerCase (ContractNode.address n)) (mapValues (CodeGraphBuilder.nodes b))
             = map fst (CodeGraphBuilder.nodes b)"
    using inv unfolding mapValues_def by (intro keyedBy_map) (simp add: codeInv_def)
  have "(\<lambda>n. toLowerCase (ContractNode.address n)) ` set (mapValues (CodeGraphBuilder.nodes b))
          = set (map (\<lambda>n. toLowerCase (ContractNode.address n)) (mapValues (CodeGraphBuilder.nodes b)))"
    by simp
  also have "\<dots> = fst ` set (CodeGraphBuilder.nodes b)"
    unfolding k by simp
  finally have s: "(\<lambda>n. toLowerCase (ContractNode.address n)) ` set (mapValues (CodeGraphBuilder.nodes b))
          = addedAddresses calls"
    using inv by (simp add: codeInv_def)
  show ?thesis
    unfolding b_def [symmetric]
    using inv k s by (simp add: code_build_def codeInv_def edgesWithin_def)
qed

lemma flagsAsAdded_snoc:
  assumes "flagsAsAdded es" and "bidirectional e = list_ex (isReverseOf e) es"
  shows "flagsAsAdded (es @ [e])"
  unfolding flagsAsAdded_def
proof (intro allI impI)
  fix i
  assume "i < length (es @ [e])"
  then consider "i < length es" | "i = length es" by fastforce
  then show "bidirectional ((es @ [e]) ! i) = list_ex (isReverseOf ((es @ [e]) ! i)) (take i (es @ [e]))"
  proof cases
    case 1
    with assms(1) show ?thesis by (simp add: flagsAsAdded_def nth_append)
  next
    case 2
    with assms(2) show ?thesis by simp
  qed
qed

lemma checkBidirectional_reverse:
  "checkBidirectional this (CommunicationEdge.source e) (CommunicationEdge.target e)
     = list_ex (isReverseOf e) (CommunicationGraphBuilder.edges this)"
  by (simp add: checkBidirectional_def list_ex_iff isReverseOf_def)

lemma commStable_addEdge:
  assumes "commStable A this0 this"
    and "CommunicationEdge.source e \<in> A" and "CommunicationEdge.target e \<in> A"
    and "bidirectional e
           = checkBidirectional this (CommunicationEdge.source e) (CommunicationEdge.target e)"
  shows "commStable A this0 (comm_addEdge this e)"
proof (cases "commEdgeKeyOf e \<in> commEdgeKeyOf ` set (CommunicationGraphBuilder.edges this)")
  case True
  then have "comm_addEdge this e = this"
    by (auto simp: comm_addEdge_def Let_def list_ex_iff commEdgeKeyOf_def)
  with assms(1) show ?thesis by simp
next
  case False
  then have eq: "comm_addEdge this e
      = this\<lparr>CommunicationGraphBuilder.edges := CommunicationGraphBuilder.edges this @ [e]\<rparr>"
    by (auto simp: comm_addEdge_def Let_def list_ex_iff commEdgeKeyOf_def image_iff)
  have "flagsAsAdded (CommunicationGraphBuilder.edges this @ [e])"
    using assms(1,4) by (intro flagsAsAdded_snoc) (simp_all add: commStable_def checkBidirectional_reverse)
  with assms(1,2,3) False show ?thesis
    unfolding eq by (simp add: commStable_def commEdgesWithin_def)
qed

lemma commStable_analyze:
  assumes "commStable A this0 this" and "fst ` set (CommunicationGraphBuilder.nodes this0) \<subseteq> A"
    and "toLowerCase (FetchedContract.address contract) \<in> A"
  shows "commStable A this0 (analyzeCommunications this contract)"
  unfolding analyzeCommunications_def Let_def analyzeByFunctionPatterns_def
proof (rule foldl_preserves [where P = "commStable A this0"])
  show "commStable A this0 this" by (rule assms(1))
next
  fix s x
  assume x: "x \<in> set (referencedNodes (map fst (CommunicationGraphBuilder.nodes this))
                        (toLowerCase (FetchedContract.address contract)) (joinedSource contract))"
    and s: "commStable A this0 s"
  from x referencedNodes_subset have "x \<in> fst ` set (CommunicationGraphBuilder.nodes this)"
    by fastforce
  with assms(1,2) have xA: "x \<in> A" by (auto simp: commStable_def)
  show "commStable A this0
     (case mapGet (CommunicationGraphBuilder.addressToContract s) x of
        None \<Rightarrow> s
      | Some targetContract \<Rightarrow>
          comm_addEdge s
            \<lparr> CommunicationEdge.source = toLowerCase (FetchedContract.address contract),
              CommunicationEdge.target = x,
              pattern = detectCommunicationPattern contract targetContract (joinedSource contract),
              CommunicationEdge.functions =
                findRelatedFunctions contract targetContract (joinedSource contract),
              CommunicationEdge.events = findRelatedEvents contract targetContract,
              bidirectional =
                checkBidirectional s (toLowerCase (FetchedContract.address contract)) x,
              frequency = None \<rparr>)"
    using s xA assms(3) by (auto split: option.splits intro!: commStable_addEdge)
qed

lemma commEdgesWithin_mono: "commEdgesWithin A es \<Longrightarrow> A \<subseteq> B \<Longrightarrow> commEdgesWithin B es"
  by (auto simp: commEdgesWithin_def)

lemma comm_index_phase:
  fixes this :: CommunicationGraphBuilder
  defines "step \<equiv> (\<lambda>this contract.
             this\<lparr>CommunicationGraphBuilder.addressToContract :=
               mapSet (CommunicationGraphBuilder.addressToContract this)
                 (toLowerCase (FetchedContract.address contract)) contract\<rparr>)"
  shows "CommunicationGraphBuilder.nodes (foldl step this cs) = CommunicationGraphBuilder.nodes this
   \<and> CommunicationGraphBuilder.edges (foldl step this cs) = CommunicationGraphBuilder.edges this"
  by (induction cs arbitrary: this) (simp_all add: step_def)

lemma comm_node_phase:
  fixes this :: CommunicationGraphBuilder
  defines "step \<equiv> (\<lambda>this contract.
             this\<lparr>CommunicationGraphBuilder.nodes :=
               mapSet (CommunicationGraphBuilder.nodes this)
                 (toLowerCase (FetchedContract.address contract)) (comm_buildNode contract)\<rparr>)"
  assumes "distinct (map fst (CommunicationGraphBuilder.nodes this))"
    and "keyedBy (\<lambda>n. toLowerCase (CommunicationNode.address n)) (CommunicationGraphBuilder.nodes this)"
  shows "CommunicationGraphBuilder.edges (foldl step this cs) = CommunicationGraphBuilder.edges this
   \<and> fst ` set (CommunicationGraphBuilder.nodes (foldl step this cs))
        = fst ` set (CommunicationGraphBuilder.nodes this) \<union> lowerAddresses cs
   \<and> distinct (map fst (CommunicationGraphBuilder.nodes (foldl step this cs)))
   \<and> keyedBy (\<lambda>n. toLowerCase (CommunicationNode.address n))
        (CommunicationGraphBuilder.nodes (foldl step this cs))"
  using assms(2,3)
proof (induction cs arbitrary: this)
  case Nil
  then show ?case by (simp add: lowerAddresses_def)
next
  case (Cons c cs)
  have d: "distinct (map fst (CommunicationGraphBuilder.nodes (step this c)))"
    using Cons.prems(1) by (simp add: step_def mapSet_distinct)
  have k: "keyedBy (\<lambda>n. toLowerCase (CommunicationNode.address n))
             (CommunicationGraphBuilder.nodes (step this c))"
    using Cons.prems(2) by (simp add: step_def keyedBy_mapSet comm_buildNode_def)
  show ?case
    using Cons.IH [OF d k]
    by (auto simp: step_def mapSet_keys lowerAddresses_def)
qed

lemma updateCommunicationCounts_edges:
  "CommunicationGraphBuilder.edges (updateCommunicationCounts this) = CommunicationGraphBuilder.edges this"
  by (simp add: updateCommunicationCounts_def)

lemma updateCommunicationCounts_keys:
  "map fst (CommunicationGraphBuilder.nodes (updateCommunicationCounts this))
     = map fst (CommunicationGraphBuilder.nodes this)"
  by (simp add: updateCommunicationCounts_def Let_def case_prod_unfold comp_def)

lemma updateCommunicationCounts_keyed:
  "keyedBy (\<lambda>n. toLowerCase (CommunicationNode.address n)) (CommunicationGraphBuilder.nodes this)
   \<Longrightarrow> keyedBy (\<lambda>n. toLowerCase (CommunicationNode.address n))
         (CommunicationGraphBuilder.nodes (updateCommunicationCounts this))"
  by (auto simp: updateCommunicationCounts_def keyedBy_def Let_def)

lemma commInv_addContracts:
  assumes "commInv A this"
  shows "commInv (A \<union> lowerAddresses cs) (comm_addContracts this cs)"
proof -
  let ?A' = "A \<union> lowerAddresses cs"
  define indexed where "indexed = foldl (\<lambda>this contract.
             this\<lparr>CommunicationGraphBuilder.addressToContract :=
               mapSet (CommunicationGraphBuilder.addressToContract this)
                 (toLowerCase (FetchedContract.address contract)) contract\<rparr>) this cs"
  define withNodes where "withNodes = foldl (\<lambda>this contract.
             this\<lparr>CommunicationGraphBuilder.nodes :=
               mapSet (CommunicationGraphBuilder.nodes this)
                 (toLowerCase (FetchedContract.address contract)) (comm_buildNode contract)\<rparr>)
           indexed cs"
  define analyzed where "analyzed = foldl analyzeCommunications withNodes cs"
  have res: "comm_addContracts this cs = updateCommunicationCounts analyzed"
    by (simp add: comm_addContracts_def Let_def indexed_def withNodes_def analyzed_def)
  note ip = comm_index_phase [of this cs, folded indexed_def]
  have di: "distinct (map fst (CommunicationGraphBuilder.nodes indexed))"
    and ki: "keyedBy (\<lambda>n. toLowerCase (CommunicationNode.address n))
               (CommunicationGraphBuilder.nodes indexed)"
    using assms ip by (simp_all add: commInv_def)
  note np = comm_node_phase [OF di ki, of cs, folded withNodes_def]
  have keys2: "fst ` set (CommunicationGraphBuilder.nodes withNodes) = ?A'"
    using assms np ip by (simp add: commInv_def)
  have st0: "commStable ?A' withNodes withNodes"
    using assms np ip by (auto simp: commStable_def commInv_def intro: commEdgesWithin_mono)
  have st: "commStable ?A' withNodes analyzed"
    unfolding analyzed_def
  proof (rule foldl_preserves [where P = "commStable ?A' withNodes"])
    show "commStable ?A' withNodes withNodes" by (rule st0)
  next
    fix s x
    assume "x \<in> set cs" and s: "commStable ?A' withNodes s"
    then have "toLowerCase (FetchedContract.address x) \<in> ?A'"
      by (simp add: lowerAddresses_def)
    with s keys2 show "commStable ?A' withNodes (analyzeCommunications s x)"
      by (intro commStable_analyze) simp_all
  qed
  have n: "CommunicationGraphBuilder.nodes analyzed = CommunicationGraphBuilder.nodes withNodes"
    using st by (simp add: commStable_def)
  have "fst ` set (CommunicationGraphBuilder.nodes (updateCommunicationCounts analyzed))
          = set (map fst (CommunicationGraphBuilder.nodes (updateCommunicationCounts analyzed)))"
    by simp
  also have "\<dots> = ?A'"
    unfolding updateCommunicationCounts_keys n using keys2 by simp
  finally have keys3: "fst ` set (CommunicationGraphBuilder.nodes (updateCommunicationCounts analyzed)) = ?A'" .
  have d3: "distinct (map fst (CommunicationGraphBuilder.nodes (updateCommunicationCounts analyzed)))"
    unfolding updateCommunicationCounts_keys n using np by simp
  have k3: "keyedBy (\<lambda>n. toLowerCase (CommunicationNode.address n))
              (CommunicationGraphBuilder.nodes (updateCommunicationCounts analyzed))"
    using np by (intro updateCommunicationCounts_keyed) (simp add: n)
  show ?thesis
    unfolding res
    using st keys3 d3 k3
    by (simp add: commInv_def commStable_def updateCommunicationCounts_edges)
qed

lemma commInv_new: "commInv {} newCommunicationGraphBuilder"
  by (simp add: commInv_def newCommunicationGraphBuilder_def commEdgesWithin_def keyedBy_def
        flagsAsAdded_def)

lemma commInv_calls:
  "commInv A this \<Longrightarrow> commInv (A \<union> addedAddresses calls) (foldl comm_addContracts this calls)"
proof (induction calls arbitrary: A this)
  case Nil
  then show ?case by (simp add: addedAddresses_def)
next
  case (Cons cs calls)
  have "A \<union> addedAddresses (cs # calls) = (A \<union> lowerAddresses cs) \<union> addedAddresses calls"
    by (auto simp: addedAddresses_def lowerAddresses_def)
  then show ?case
    using Cons.IH [OF commInv_addContracts [OF Cons.prems, of cs]] by simp
qed

lemma mutual_pair:
  assumes ab: "toLowerCase (FetchedContract.address A) \<noteq> toLowerCase (FetchedContract.address B)"
    and rA: "referencedNodes [toLowerCase (FetchedContract.address A), toLowerCase (FetchedContract.address B)]
               (toLowerCase (FetchedContract.address A)) (joinedSource A)
             = [toLowerCase (FetchedContract.address B)]"
    and rB: "referencedNodes [toLowerCase (FetchedContract.address A), toLowerCase (FetchedContract.address B)]
               (toLowerCase (FetchedContract.address B)) (joinedSource B)
             = [toLowerCase (FetchedContract.address A)]"
  shows "map flagOf (CommunicationGraphBuilder.edges
           (comm_addContracts newCommunicationGraphBuilder [A, B]))
         = [(toLowerCase (FetchedContract.address A), toLowerCase (FetchedContract.address B), False),
            (toLowerCase (FetchedContract.address B), toLowerCase (FetchedContract.address A), True)]"
  using ab ab [symmetric]
  by (simp add: comm_addContracts_def Let_def newCommunicationGraphBuilder_def
        analyzeCommunications_def analyzeByFunctionPatterns_def rA rB mapGet_def comm_addEdge_def
        checkBidirectional_def updateCommunicationCounts_def flagOf_def)

lemma w_refs:
  "referencedNodes [toLowerCase (FetchedContract.address vaultContract),
                    toLowerCase (FetchedContract.address poolContract)]
     (toLowerCase (FetchedContract.address vaultContract)) (joinedSource vaultContract)
   = [toLowerCase (FetchedContract.address poolContract)]"
  by (simp add: referencedNodes_def vaultContract_def poolContract_def joinedSource_def
        toLowerCase_def toLowerChar_def isHexDigit_def Let_def)

lemma w_refs2:
  "referencedNodes [toLowerCase (FetchedContract.address vaultContract),
                    toLowerCase (FetchedContract.address poolContract)]
     (toLowerCase (FetchedContract.address poolContract)) (joinedSource poolContract)
   = [toLowerCase (FetchedContract.address vaultContract)]"
  by (simp add: referencedNodes_def vaultContract_def poolContract_def joinedSource_def
        toLowerCase_def toLowerChar_def isHexDigit_def Let_def)

lemma comm_graph_invariant:
  "distinct (map (\<lambda>n. toLowerCase (CommunicationNode.address n))
       (CommunicationGraph.nodes (commGraphOf now calls)))
   \<and> (\<lambda>n. toLowerCase (CommunicationNode.address n)) `
         set (CommunicationGraph.nodes (commGraphOf now calls)) = addedAddresses calls
   \<and> distinct (map commEdgeKeyOf (CommunicationGraph.edges (commGraphOf now calls)))
   \<and> CommunicationEdge.source ` set (CommunicationGraph.edges (commGraphOf now calls))
       \<subseteq> addedAddresses calls
   \<and> CommunicationEdge.target ` set (CommunicationGraph.edges (commGraphOf now calls))
       \<subseteq> addedAddresses calls
   \<and> flagsAsAdded (CommunicationGraph.edges (commGraphOf now calls))"
proof -
  define b where "b = foldl comm_addContracts newCommunicationGraphBuilder calls"
  have inv: "commInv (addedAddresses calls) b"
    using commInv_calls [OF commInv_new, of calls] by (simp add: b_def)
  have k: "map (\<lambda>n. toLowerCase (CommunicationNode.address n))
             (mapValues (CommunicationGraphBuilder.nodes b))
             = map fst (CommunicationGraphBuilder.nodes b)"
    using inv unfolding mapValues_def by (intro keyedBy_map) (simp add: commInv_def)
  have "(\<lambda>n. toLowerCase (CommunicationNode.address n)) `
           set (mapValues (CommunicationGraphBuilder.nodes b))
          = set (map (\<lambda>n. toLowerCase (CommunicationNode.address n))
                  (mapValues (CommunicationGraphBuilder.nodes b)))"
    by simp
  also have "\<dots> = fst ` set (CommunicationGraphBuilder.nodes b)"
    unfolding k by simp
  finally have s: "(\<lambda>n. toLowerCase (CommunicationNode.address n)) `
           set (mapValues (CommunicationGraphBuilder.nodes b)) = addedAddresses calls"
    using inv by (simp add: commInv_def)
  show ?thesis
    unfolding commGraphOf_def b_def [symmetric]
    using inv k s by (simp add: comm_build_def commInv_def commEdgesWithin_def)
qed

lemma code_graph_invariant':
  "distinct (map (\<lambda>n. toLowerCase (ContractNode.address n)) (CodeGraph.nodes (codeGraphOf X now calls)))
   \<and> (\<lambda>n. toLowerCase (ContractNode.address n)) ` set (CodeGraph.nodes (codeGraphOf X now calls))
       = addedAddresses calls
   \<and> distinct (map edgeKeyOf (CodeGraph.edges (codeGraphOf X now calls)))
   \<and> ContractEdge.source ` set (CodeGraph.edges (codeGraphOf X now calls)) \<subseteq> addedAddresses calls
   \<and> ContractEdge.target ` set (CodeGraph.edges (codeGraphOf X now calls)) \<subseteq> addedAddresses calls"
  unfolding codeGraphOf_def by (rule code_graph_invariant)

text \<open>
  Claim C5. After any sequence of \<^verbatim>\<open>addContracts\<close> calls on a new builder, the graph
  returned by \<^verbatim>\<open>build()\<close> has no two nodes with the same lower-cased address, its nodes
  are exactly the contracts added, no two of its edges have the same (source, target, kind)
  key, and the source and the target of every edge are addresses of added contracts: an
  address literal that names no added contract gives no edge. This holds for the code graph
  builder, whatever the source-text extractors return, and for the communication graph
  builder.
\<close>

theorem built_graphs_keyed_and_closed:
  "(distinct (map (\<lambda>n. toLowerCase (ContractNode.address n)) (CodeGraph.nodes (codeGraphOf X now calls)))
   \<and> (\<lambda>n. toLowerCase (ContractNode.address n)) ` set (CodeGraph.nodes (codeGraphOf X now calls))
       = addedAddresses calls
   \<and> distinct (map edgeKeyOf (CodeGraph.edges (codeGraphOf X now calls)))
   \<and> ContractEdge.source ` set (CodeGraph.edges (codeGraphOf X now calls)) \<subseteq> addedAddresses calls
   \<and> ContractEdge.target ` set (CodeGraph.edges (codeGraphOf X now calls)) \<subseteq> addedAddresses calls)
   \<and> (distinct (map (\<lambda>n. toLowerCase (CommunicationNode.address n))
       (CommunicationGraph.nodes (commGraphOf now calls)))
   \<and> (\<lambda>n. toLowerCase (CommunicationNode.address n)) `
         set (CommunicationGraph.nodes (commGraphOf now calls)) = addedAddresses calls
   \<and> distinct (map commEdgeKeyOf (CommunicationGraph.edges (commGraphOf now calls)))
   \<and> CommunicationEdge.source ` set (CommunicationGraph.edges (commGraphOf now calls))
       \<subseteq> addedAddresses calls
   \<and> CommunicationEdge.target ` set (CommunicationGraph.edges (commGraphOf now calls))
       \<subseteq> addedAddresses calls)"
proof (rule conjI)
  show "distinct (map (\<lambda>n. toLowerCase (ContractNode.address n)) (CodeGraph.nodes (codeGraphOf X now calls)))
   \<and> (\<lambda>n. toLowerCase (ContractNode.address n)) ` set (CodeGraph.nodes (codeGraphOf X now calls))
       = addedAddresses calls
   \<and> distinct (map edgeKeyOf (CodeGraph.edges (codeGraphOf X now calls)))
   \<and> ContractEdge.source ` set (CodeGraph.edges (codeGraphOf X now calls)) \<subseteq> addedAddresses calls
   \<and> ContractEdge.target ` set (CodeGraph.edges (codeGraphOf X now calls)) \<subseteq> addedAddresses calls"
    by (rule code_graph_invariant')
next
  note I = comm_graph_invariant [of now calls]
  show "distinct (map (\<lambda>n. toLowerCase (CommunicationNode.address n))
       (CommunicationGraph.nodes (commGraphOf now calls)))
   \<and> (\<lambda>n. toLowerCase (CommunicationNode.address n)) `
         set (CommunicationGraph.nodes (commGraphOf now calls)) = addedAddresses calls
   \<and> distinct (map commEdgeKeyOf (CommunicationGraph.edges (commGraphOf now calls)))
   \<and> CommunicationEdge.source ` set (CommunicationGraph.edges (commGraphOf now calls))
       \<subseteq> addedAddresses calls
   \<and> CommunicationEdge.target ` set (CommunicationGraph.edges (commGraphOf now calls))
       \<subseteq> addedAddresses calls"
    by (intro conjI I [THEN conjunct1] I [THEN conjunct2, THEN conjunct1]
          I [THEN conjunct2, THEN conjunct2, THEN conjunct1]
          I [THEN conjunct2, THEN conjunct2, THEN conjunct2, THEN conjunct1]
          I [THEN conjunct2, THEN conjunct2, THEN conjunct2, THEN conjunct2, THEN conjunct1])
qed


lemma w5a: "addedAddresses [[vaultContract], [poolContract]]
   = {''0x1111111111111111111111111111111111111111'', ''0xabcdefabcdefabcdefabcdefabcdefabcdef0002''}"
  by (simp add: addedAddresses_def vaultContract_def poolContract_def toLowerCase_def toLowerChar_def)

theorem built_graphs_keyed_and_closed_witness:
  "''0x3333333333333333333333333333333333333333''
      \<notin> ContractEdge.target ` set (CodeGraph.edges (codeGraphOf noExtractor [] [[vaultContract], [poolContract]]))
   \<and> ''0x3333333333333333333333333333333333333333''
      \<notin> CommunicationEdge.target ` set (CommunicationGraph.edges (commGraphOf [] [[vaultContract], [poolContract]]))"
proof -
  note T = built_graphs_keyed_and_closed [of noExtractor "[]" "[[vaultContract], [poolContract]]"]
  have o: "''0x3333333333333333333333333333333333333333'' \<notin> addedAddresses [[vaultContract], [poolContract]]"
    unfolding w5a by simp
  have a: "ContractEdge.target ` set (CodeGraph.edges (codeGraphOf noExtractor [] [[vaultContract], [poolContract]]))
             \<subseteq> addedAddresses [[vaultContract], [poolContract]]"
    using T by (elim conjE)
  have b: "CommunicationEdge.target ` set (CommunicationGraph.edges (commGraphOf [] [[vaultContract], [poolContract]]))
             \<subseteq> addedAddresses [[vaultContract], [poolContract]]"
    using T by (elim conjE)
  from a b o show ?thesis by (meson subsetD)
qed

text \<open>
  Claim C7. In the graph of the communication builder, the flag of every edge says whether
  an edge between the same two contracts in the other direction stands before it in the
  edge list, that is, existed when the edge was added; edges added later do not change it.
  So of two edges in opposite directions the later one has the flag set. For two contracts
  that name each other, added to a new builder in one call, the edge of the contract
  processed first has the flag \<open>False\<close> and the edge of the second has \<open>True\<close>; with
  the two contracts in the other order the flags are the other way round.
\<close>

theorem bidirectional_flag_as_added:
  "(i < length (CommunicationGraph.edges (commGraphOf now calls)) \<longrightarrow>
      bidirectional (CommunicationGraph.edges (commGraphOf now calls) ! i)
        = list_ex (isReverseOf (CommunicationGraph.edges (commGraphOf now calls) ! i))
            (take i (CommunicationGraph.edges (commGraphOf now calls))))
   \<and> (i < j \<and> j < length (CommunicationGraph.edges (commGraphOf now calls))
        \<and> isReverseOf (CommunicationGraph.edges (commGraphOf now calls) ! j)
             (CommunicationGraph.edges (commGraphOf now calls) ! i) \<longrightarrow>
      bidirectional (CommunicationGraph.edges (commGraphOf now calls) ! j))
   \<and> (toLowerCase (FetchedContract.address A) \<noteq> toLowerCase (FetchedContract.address B)
        \<and> referencedNodes [toLowerCase (FetchedContract.address A), toLowerCase (FetchedContract.address B)]
               (toLowerCase (FetchedContract.address A)) (joinedSource A)
             = [toLowerCase (FetchedContract.address B)]
        \<and> referencedNodes [toLowerCase (FetchedContract.address A), toLowerCase (FetchedContract.address B)]
               (toLowerCase (FetchedContract.address B)) (joinedSource B)
             = [toLowerCase (FetchedContract.address A)] \<longrightarrow>
      map flagOf (CommunicationGraph.edges (commGraphOf now [[A, B]]))
         = [(toLowerCase (FetchedContract.address A), toLowerCase (FetchedContract.address B), False),
            (toLowerCase (FetchedContract.address B), toLowerCase (FetchedContract.address A), True)])"
proof -
  define es where "es = CommunicationGraph.edges (commGraphOf now calls)"
  have f: "flagsAsAdded es"
    using comm_graph_invariant [of now calls] by (simp add: es_def)
  have one: "bidirectional (es ! i) = list_ex (isReverseOf (es ! i)) (take i es)" if "i < length es" for i
    using f that by (simp add: flagsAsAdded_def)
  have two: "bidirectional (es ! j)" if "i < j" "j < length es" "isReverseOf (es ! j) (es ! i)"
  proof -
    have "take j es ! i = es ! i" "i < length (take j es)"
      using that(1,2) by simp_all
    then have "es ! i \<in> set (take j es)"
      by (metis nth_mem)
    then have "list_ex (isReverseOf (es ! j)) (take j es)"
      unfolding list_ex_iff using that(3) by (rule bexI [rotated])
    with one [OF that(2)] show ?thesis by simp
  qed
  have three: "map flagOf (CommunicationGraph.edges (commGraphOf now [[A, B]]))
         = [(toLowerCase (FetchedContract.address A), toLowerCase (FetchedContract.address B), False),
            (toLowerCase (FetchedContract.address B), toLowerCase (FetchedContract.address A), True)]"
    if "toLowerCase (FetchedContract.address A) \<noteq> toLowerCase (FetchedContract.address B)
        \<and> referencedNodes [toLowerCase (FetchedContract.address A), toLowerCase (FetchedContract.address B)]
               (toLowerCase (FetchedContract.address A)) (joinedSource A)
             = [toLowerCase (FetchedContract.address B)]
        \<and> referencedNodes [toLowerCase (FetchedContract.address A), toLowerCase (FetchedContract.address B)]
               (toLowerCase (FetchedContract.address B)) (joinedSource B)
             = [toLowerCase (FetchedContract.address A)]"
    using mutual_pair [OF that [THEN conjunct1] that [THEN conjunct2, THEN conjunct1]
        that [THEN conjunct2, THEN conjunct2]]
    by (simp add: commGraphOf_def comm_build_def)
  show ?thesis
    unfolding es_def [symmetric]
  proof (intro conjI impI)
    assume "i < length es"
    then show "bidirectional (es ! i) = list_ex (isReverseOf (es ! i)) (take i es)" by (rule one)
  next
    assume "i < j \<and> j < length es \<and> isReverseOf (es ! j) (es ! i)"
    then show "bidirectional (es ! j)" using two by simp
  next
    assume "toLowerCase (FetchedContract.address A) \<noteq> toLowerCase (FetchedContract.address B)
        \<and> referencedNodes [toLowerCase (FetchedContract.address A), toLowerCase (FetchedContract.address B)]
               (toLowerCase (FetchedContract.address A)) (joinedSource A)
             = [toLowerCase (FetchedContract.address B)]
        \<and> referencedNodes [toLowerCase (FetchedContract.address A), toLowerCase (FetchedContract.address B)]
               (toLowerCase (FetchedContract.address B)) (joinedSource B)
             = [toLowerCase (FetchedContract.address A)]"
    then show "map flagOf (CommunicationGraph.edges (commGraphOf now [[A, B]]))
         = [(toLowerCase (FetchedContract.address A), toLowerCase (FetchedContract.address B), False),
            (toLowerCase (FetchedContract.address B), toLowerCase (FetchedContract.address A), True)]"
      by (rule three)
  qed
qed


theorem bidirectional_flag_as_added_witness:
  "toLowerCase (FetchedContract.address vaultContract) \<noteq> toLowerCase (FetchedContract.address poolContract)
   \<and> map flagOf (CommunicationGraph.edges (commGraphOf [] [[vaultContract, poolContract]]))
       = [(''0x1111111111111111111111111111111111111111'',
           ''0xabcdefabcdefabcdefabcdefabcdefabcdef0002'', False),
          (''0xabcdefabcdefabcdefabcdefabcdefabcdef0002'',
           ''0x1111111111111111111111111111111111111111'', True)]
   \<and> 1 < length (CommunicationGraph.edges (commGraphOf [] [[vaultContract, poolContract]]))
   \<and> bidirectional (CommunicationGraph.edges (commGraphOf [] [[vaultContract, poolContract]]) ! 1)
       = list_ex (isReverseOf (CommunicationGraph.edges (commGraphOf [] [[vaultContract, poolContract]]) ! 1))
           (take 1 (CommunicationGraph.edges (commGraphOf [] [[vaultContract, poolContract]])))"
proof -
  have la: "toLowerCase (FetchedContract.address vaultContract) = ''0x1111111111111111111111111111111111111111''"
    by (simp add: vaultContract_def toLowerCase_def toLowerChar_def)
  have lb: "toLowerCase (FetchedContract.address poolContract) = ''0xabcdefabcdefabcdefabcdefabcdefabcdef0002''"
    by (simp add: poolContract_def toLowerCase_def toLowerChar_def)
  have ne: "toLowerCase (FetchedContract.address vaultContract) \<noteq> toLowerCase (FetchedContract.address poolContract)"
    unfolding la lb by simp
  note T = bidirectional_flag_as_added [of 1 "[]" "[[vaultContract, poolContract]]" 1 vaultContract poolContract]
  note T1 = T [THEN conjunct1]
  note T3 = T [THEN conjunct2, THEN conjunct2]
  have m: "map flagOf (CommunicationGraph.edges (commGraphOf [] [[vaultContract, poolContract]]))
         = [(toLowerCase (FetchedContract.address vaultContract), toLowerCase (FetchedContract.address poolContract), False),
            (toLowerCase (FetchedContract.address poolContract), toLowerCase (FetchedContract.address vaultContract), True)]"
    by (rule T3 [THEN mp]) (intro conjI ne w_refs w_refs2)
  have "length (map flagOf (CommunicationGraph.edges (commGraphOf [] [[vaultContract, poolContract]]))) = 2"
    unfolding m by simp
  then have len: "1 < length (CommunicationGraph.edges (commGraphOf [] [[vaultContract, poolContract]]))"
    by simp
  note b = T1 [THEN mp, OF len]
  show ?thesis
    by (intro conjI ne m [unfolded la lb] len b)
qed

end
